theory Spec2Isabelle
  imports Complex_Main "HOL-Library.AList" "HOL-Library.List_Lexorder" "HOL-Library.Char_ord"
begin

section \<open>Python values, dictionaries and the object store\<close>

text \<open>
  The facade of \<^verbatim>\<open>clustering_algorithms.py\<close> moves option values around without ever
  computing with them, so a value is a tagged literal. A float stands for the decimal value
  of its literal (\<^verbatim>\<open>0.0001\<close>, \<^verbatim>\<open>0.5\<close>, \<^verbatim>\<open>1.\<close>); \<open>PFunc\<close> is a function object such as
  \<^verbatim>\<open>np.mean\<close>; \<open>PRef\<close> is a reference to a dictionary object of the store.
\<close>

datatype pyval =
    PNone
  | PBool bool
  | PInt int
  | PFloat real
  | PStr string
  | PTuple "pyval list"
  | PFunc string
  | PRef nat

datatype pyexn = KeyError string | ValueError string | RoutineError string

type_synonym addr = nat

text \<open>
  A dictionary is an association list in insertion order; \<^verbatim>\<open>d[k] = v\<close> replaces the value
  of an existing key in place and appends a new key (\<^const>\<open>AList.update\<close>). Dictionaries are
  objects: the store maps an address to the contents of the dictionary living there, and
  \<open>nxt\<close> is the first address never handed out.
\<close>

type_synonym pydict = "(string \<times> pyval) list"

record store =
  cells :: "addr \<Rightarrow> pydict"
  nxt :: addr

definition new_dict :: "store \<Rightarrow> addr \<times> store" where
  "new_dict h = (nxt h, h\<lparr>cells := (cells h)(nxt h := []), nxt := Suc (nxt h)\<rparr>)"

definition setitem :: "addr \<Rightarrow> string \<Rightarrow> pyval \<Rightarrow> store \<Rightarrow> store" where
  "setitem a k v h = h\<lparr>cells := (cells h)(a := AList.update k v (cells h a))\<rparr>"

definition getitem :: "addr \<Rightarrow> string \<Rightarrow> store \<Rightarrow> pyexn + pyval" where
  "getitem a k h = (case map_of (cells h a) k of None \<Rightarrow> Inl (KeyError k) | Some v \<Rightarrow> Inr v)"

definition dict_keys :: "addr \<Rightarrow> store \<Rightarrow> string list" where
  "dict_keys a h = map fst (cells h a)"

text \<open>
  \<^verbatim>\<open>set(xs) & set(ys)\<close>. A Python set iterates in an order of its own choosing; the model
  iterates in the order of \<open>xs\<close>.
\<close>

definition set_and :: "string list \<Rightarrow> string list \<Rightarrow> string list" where
  "set_and xs ys = remdups (filter (\<lambda>x. x \<in> set ys) xs)"

section \<open>The facade object\<close>

text \<open>
  \<^verbatim>\<open>__init__(self, data, kwargs, K=2)\<close> stores its arguments and an empty result list. The
  dataset is a table of rows, \<open>var_params\<close> is a reference to the caller's dictionary.
\<close>

record 'a facade =
  data :: "'a list list"
  out :: "int list"
  var_params :: addr
  K :: int

definition init :: "'a list list \<Rightarrow> addr \<Rightarrow> int \<Rightarrow> 'a facade" where
  "init d kwargs k = \<lparr>data = d, out = [], var_params = kwargs, K = k\<rparr>"

definition init_default_K :: "'a list list \<Rightarrow> addr \<Rightarrow> 'a facade" where
  "init_default_K d kwargs = init d kwargs 2"

section \<open>The external clustering routines\<close>

text \<open>
  A method constructs an estimator of \<^verbatim>\<open>sklearn.cluster\<close> from keyword arguments, fits
  it to the dataset and reads \<^verbatim>\<open>labels_\<close>. The estimator is the class name with the keyword
  arguments; constructing, fitting and reading the labels is one call of a routine that the
  facade is given, which either raises or returns the labels.
\<close>

record estimator =
  cls :: string
  kwargs :: pydict

type_synonym 'a routine = "estimator \<Rightarrow> 'a list list \<Rightarrow> pyexn + int list"

type_synonym solution = "(pyexn + addr \<times> estimator) \<times> store"

type_synonym 'a outcome = "(pyexn + pyval) \<times> 'a facade \<times> store"

section \<open>The steps the four algorithm methods share\<close>

text \<open>\<^verbatim>\<open>params = {}\<close> followed by one assignment \<^verbatim>\<open>params[k] = v\<close> per default, in source order.\<close>

definition default_params :: "pydict \<Rightarrow> store \<Rightarrow> addr \<times> store" where
  "default_params defaults h =
     (let (params, h1) = new_dict h
      in (params, fold (\<lambda>(k, v). setitem params k v) defaults h1))"

text \<open>\<^verbatim>\<open>for key in overlap: params[key] = self.var_params[key]\<close>\<close>

fun assign_overlap :: "addr \<Rightarrow> addr \<Rightarrow> string list \<Rightarrow> store \<Rightarrow> pyexn option \<times> store" where
  "assign_overlap params vp [] h = (None, h)"
| "assign_overlap params vp (key # rest) h =
     (case getitem vp key h of
        Inl e \<Rightarrow> (Some e, h)
      | Inr v \<Rightarrow> assign_overlap params vp rest (setitem params key v h))"

text \<open>\<^verbatim>\<open>overlap = set(params.keys()) & set(self.var_params.keys())\<close> and the loop over it.\<close>

definition overlay_params :: "addr \<Rightarrow> 'a facade \<Rightarrow> store \<Rightarrow> pyexn option \<times> store" where
  "overlay_params params self h =
     (let overlap = set_and (dict_keys params h) (dict_keys (var_params self) h)
      in assign_overlap params (var_params self) overlap h)"

text \<open>The keyword arguments \<^verbatim>\<open>name=params['name']\<close>, evaluated left to right.\<close>

fun read_args :: "addr \<Rightarrow> string list \<Rightarrow> store \<Rightarrow> pyexn + pydict" where
  "read_args params [] h = Inr []"
| "read_args params (name # rest) h =
     (case getitem params name h of
        Inl e \<Rightarrow> Inl e
      | Inr v \<Rightarrow> (case read_args params rest h of
                   Inl e \<Rightarrow> Inl e
                 | Inr args \<Rightarrow> Inr ((name, v) # args)))"

text \<open>
  \<^verbatim>\<open>solution.fit(self.data); self.out = solution.labels_; self.var_params = params\<close>:
  the two fields are written only once the routine has returned.
\<close>

definition fit_and_store :: "'a routine \<Rightarrow> solution \<Rightarrow> 'a facade \<Rightarrow> 'a outcome" where
  "fit_and_store ext sol self =
     (case sol of
        (Inl e, h) \<Rightarrow> (Inl e, self, h)
      | (Inr (params, solution), h) \<Rightarrow>
          (case ext solution (data self) of
             Inl e \<Rightarrow> (Inl e, self, h)
           | Inr labels \<Rightarrow> (Inr PNone, self\<lparr>out := labels, var_params := params\<rparr>, h)))"

section \<open>The four algorithm methods\<close>

definition kmeans_defaults :: pydict where
  "kmeans_defaults =
     [(''init'', PStr ''k-means++''),
      (''n_init'', PInt 10),
      (''max_iter'', PInt 300),
      (''tol'', PFloat 0.0001),
      (''precompute_distances'', PStr ''auto''),
      (''verbose'', PInt 0),
      (''random_state'', PNone),
      (''copy_x'', PBool True),
      (''n_jobs'', PInt 1)]"

definition kmeans_solution :: "'a facade \<Rightarrow> store \<Rightarrow> solution" where
  "kmeans_solution self h =
     (let (params, h1) = default_params kmeans_defaults h
      in case overlay_params params self h1 of
           (Some e, h2) \<Rightarrow> (Inl e, h2)
         | (None, h2) \<Rightarrow>
             (case read_args params
                     [''init'', ''n_init'', ''max_iter'', ''tol'', ''precompute_distances'',
                      ''verbose'', ''random_state'', ''copy_x'', ''n_jobs''] h2 of
                Inl e \<Rightarrow> (Inl e, h2)
              | Inr args \<Rightarrow>
                  (Inr (params, \<lparr>cls = ''KMeans'', kwargs = (''n_clusters'', PInt (K self)) # args\<rparr>), h2)))"

definition kmeans :: "'a routine \<Rightarrow> 'a facade \<Rightarrow> store \<Rightarrow> 'a outcome" where
  "kmeans ext self h = fit_and_store ext (kmeans_solution self h) self"

definition spectral_defaults :: pydict where
  "spectral_defaults =
     [(''eigen_solver'', PNone),
      (''random_state'', PNone),
      (''n_init'', PInt 10),
      (''gamma'', PFloat 1),
      (''affinity'', PStr ''rbf''),
      (''n_neighbors'', PInt 10),
      (''eigen_tol'', PStr ''0.0''),
      (''assign_labels'', PStr ''kmeans''),
      (''degree'', PInt 3),
      (''coef0'', PInt 1),
      (''kernel_params'', PNone)]"

definition spectral_solution :: "'a facade \<Rightarrow> store \<Rightarrow> solution" where
  "spectral_solution self h =
     (let (params, h1) = default_params spectral_defaults h
      in case overlay_params params self h1 of
           (Some e, h2) \<Rightarrow> (Inl e, h2)
         | (None, h2) \<Rightarrow>
             (case read_args params
                     [''n_neighbors'', ''gamma'', ''eigen_solver'', ''random_state'', ''n_init'',
                      ''affinity'', ''coef0'', ''kernel_params'', ''eigen_tol'',
                      ''assign_labels''] h2 of
                Inl e \<Rightarrow> (Inl e, h2)
              | Inr args \<Rightarrow>
                  (Inr (params, \<lparr>cls = ''SpectralClustering'', kwargs = (''n_clusters'', PInt (K self)) # args\<rparr>), h2)))"

definition spectral :: "'a routine \<Rightarrow> 'a facade \<Rightarrow> store \<Rightarrow> 'a outcome" where
  "spectral ext self h = fit_and_store ext (spectral_solution self h) self"

definition agglomerative_defaults :: pydict where
  "agglomerative_defaults =
     [(''affinity'', PStr ''euclidean''),
      (''connectivity'', PNone),
      (''n_components'', PNone),
      (''compute_full_tree'', PStr ''auto''),
      (''linkage'', PStr ''ward''),
      (''pooling_func'', PFunc ''numpy.mean'')]"

definition agglomerative_solution :: "'a facade \<Rightarrow> store \<Rightarrow> solution" where
  "agglomerative_solution self h =
     (let (params, h1) = default_params agglomerative_defaults h
      in case overlay_params params self h1 of
           (Some e, h2) \<Rightarrow> (Inl e, h2)
         | (None, h2) \<Rightarrow>
             (case read_args params
                     [''affinity'', ''connectivity'', ''n_components'', ''compute_full_tree'',
                      ''linkage'', ''pooling_func''] h2 of
                Inl e \<Rightarrow> (Inl e, h2)
              | Inr args \<Rightarrow>
                  (Inr (params, \<lparr>cls = ''AgglomerativeClustering'', kwargs = (''n_clusters'', PInt (K self)) # args\<rparr>), h2)))"

definition agglomerative :: "'a routine \<Rightarrow> 'a facade \<Rightarrow> store \<Rightarrow> 'a outcome" where
  "agglomerative ext self h = fit_and_store ext (agglomerative_solution self h) self"

text \<open>
  The source writes \<^verbatim>\<open>params['leaf_size']=30, \<close> and \<^verbatim>\<open>params['p']=None, \<close>: with the
  trailing comma the right-hand side is a one-element tuple.
\<close>

definition DBSCAN_defaults :: pydict where
  "DBSCAN_defaults =
     [(''eps'', PFloat 0.5),
      (''min_samples'', PInt 5),
      (''metric'', PStr ''euclidean''),
      (''algorithm'', PStr ''auto''),
      (''leaf_size'', PTuple [PInt 30]),
      (''p'', PTuple [PNone]),
      (''random_state'', PNone)]"

definition DBSCAN_solution :: "'a facade \<Rightarrow> store \<Rightarrow> solution" where
  "DBSCAN_solution self h =
     (let (params, h1) = default_params DBSCAN_defaults h
      in case overlay_params params self h1 of
           (Some e, h2) \<Rightarrow> (Inl e, h2)
         | (None, h2) \<Rightarrow>
             (case read_args params
                     [''eps'', ''min_samples'', ''metric'', ''algorithm'', ''leaf_size'',
                      ''p'', ''random_state''] h2 of
                Inl e \<Rightarrow> (Inl e, h2)
              | Inr args \<Rightarrow>
                  (Inr (params, \<lparr>cls = ''DBSCAN'', kwargs = args\<rparr>), h2)))"

definition DBSCAN :: "'a routine \<Rightarrow> 'a facade \<Rightarrow> store \<Rightarrow> 'a outcome" where
  "DBSCAN ext self h = fit_and_store ext (DBSCAN_solution self h) self"

section \<open>Discovery\<close>

text \<open>
  \<^verbatim>\<open>dir(self)\<close> lists, sorted and without repetition, the names of the instance
  attributes, of the attributes the class body defines and of those the language gives every
  object; the last group depends on the interpreter and is a parameter, each name with
  whether its value is callable. An attribute is looked up on the instance first, then on
  the class, then on what is inherited. The instance attributes hold a table, a label
  sequence, a dictionary and an integer: none is callable.
\<close>

type_synonym namespace = "(string \<times> bool) list"

definition instance_attrs :: namespace where
  "instance_attrs = [(''data'', False), (''out'', False), (''var_params'', False), (''K'', False)]"

definition class_attrs :: namespace where
  "class_attrs =
     [(''__init__'', True), (''clustering_algorithms_available'', True), (''kmeans'', True),
      (''spectral'', True), (''agglomerative'', True), (''DBSCAN'', True)]"

definition dir_self :: "namespace \<Rightarrow> string list" where
  "dir_self inherited = sort (remdups (map fst (instance_attrs @ class_attrs @ inherited)))"

definition callable_attr :: "namespace \<Rightarrow> string \<Rightarrow> bool" where
  "callable_attr inherited name =
     (case map_of (instance_attrs @ class_attrs @ inherited) name of
        None \<Rightarrow> False
      | Some c \<Rightarrow> c)"

text \<open>\<^verbatim>\<open>xs.remove(x)\<close> drops the first occurrence and raises when there is none.\<close>

definition list_remove :: "string \<Rightarrow> string list \<Rightarrow> pyexn + string list" where
  "list_remove x xs = (if x \<in> set xs then Inr (remove1 x xs) else Inl (ValueError x))"

text \<open>\<^verbatim>\<open>re.match('__', method)\<close> succeeds when the name starts with two underscores.\<close>

definition re_match_dunder :: "string \<Rightarrow> bool" where
  "re_match_dunder name = (take 2 name = ''__'')"

fun fill_methodDict :: "addr \<Rightarrow> string list \<Rightarrow> store \<Rightarrow> store" where
  "fill_methodDict d [] h = h"
| "fill_methodDict d (method # rest) h =
     (if \<not> re_match_dunder method
      then fill_methodDict d rest (setitem d method (PStr '''') h)
      else fill_methodDict d rest h)"

definition clustering_algorithms_available ::
  "namespace \<Rightarrow> 'a facade \<Rightarrow> store \<Rightarrow> 'a outcome" where
  "clustering_algorithms_available inherited self h =
     (case list_remove ''clustering_algorithms_available''
             (filter (callable_attr inherited) (dir_self inherited)) of
        Inl e \<Rightarrow> (Inl e, self, h)
      | Inr methods \<Rightarrow>
          (let (methodDict, h1) = new_dict h
           in (Inr (PRef methodDict), self, fill_methodDict methodDict methods h1)))"

section \<open>Invocation by name, sequences of invocations\<close>

text \<open>
  A caller picks a method of the facade by its name. A call that raises leaves the object
  as it was at the raise, and the caller may go on with the next call.
\<close>

datatype algorithm = Kmeans | Spectral | Agglomerative | Dbscan

datatype method_name = Algorithm algorithm | Available

fun defaults_of :: "algorithm \<Rightarrow> pydict" where
  "defaults_of Kmeans = kmeans_defaults"
| "defaults_of Spectral = spectral_defaults"
| "defaults_of Agglomerative = agglomerative_defaults"
| "defaults_of Dbscan = DBSCAN_defaults"

fun solution_of :: "algorithm \<Rightarrow> 'a facade \<Rightarrow> store \<Rightarrow> solution" where
  "solution_of Kmeans self h = kmeans_solution self h"
| "solution_of Spectral self h = spectral_solution self h"
| "solution_of Agglomerative self h = agglomerative_solution self h"
| "solution_of Dbscan self h = DBSCAN_solution self h"

fun run_algorithm :: "'a routine \<Rightarrow> algorithm \<Rightarrow> 'a facade \<Rightarrow> store \<Rightarrow> 'a outcome" where
  "run_algorithm ext Kmeans self h = kmeans ext self h"
| "run_algorithm ext Spectral self h = spectral ext self h"
| "run_algorithm ext Agglomerative self h = agglomerative ext self h"
| "run_algorithm ext Dbscan self h = DBSCAN ext self h"

fun invoke :: "'a routine \<Rightarrow> namespace \<Rightarrow> method_name \<Rightarrow> 'a facade \<Rightarrow> store \<Rightarrow> 'a outcome" where
  "invoke ext inh (Algorithm A) self h = run_algorithm ext A self h"
| "invoke ext inh Available self h = clustering_algorithms_available inh self h"

fun invoke_all ::
  "'a routine \<Rightarrow> namespace \<Rightarrow> method_name list \<Rightarrow> 'a facade \<Rightarrow> store \<Rightarrow> 'a facade \<times> store" where
  "invoke_all ext inh [] self h = (self, h)"
| "invoke_all ext inh (m # ms) self h =
     (case invoke ext inh m self h of (r, self', h') \<Rightarrow> invoke_all ext inh ms self' h')"

text \<open>Reading an outcome: did the call return, the object and the store it leaves.\<close>

definition returned :: "'a outcome \<Rightarrow> bool" where
  "returned oc = (case fst oc of Inl e \<Rightarrow> False | Inr r \<Rightarrow> True)"

definition facade_of :: "'a outcome \<Rightarrow> 'a facade" where
  "facade_of oc = fst (snd oc)"

definition store_of :: "'a outcome \<Rightarrow> store" where
  "store_of oc = snd (snd oc)"

text \<open>The contents of the dictionary that the field \<open>var_params\<close> refers to.\<close>

definition stored_options :: "'a facade \<times> store \<Rightarrow> pydict" where
  "stored_options sh = cells (snd sh) (var_params (fst sh))"

definition effective_options :: "'a outcome \<Rightarrow> pydict" where
  "effective_options oc = stored_options (snd oc)"

text \<open>The keyword arguments of the estimator a method constructs (none if it raises before).\<close>

definition call_args :: "solution \<Rightarrow> pydict" where
  "call_args sol = (case fst sol of Inl e \<Rightarrow> [] | Inr (params, solution) \<Rightarrow> kwargs solution)"

section \<open>The merge as a function of the two dictionaries\<close>

text \<open>
  What the default loop and the overlay loop leave in \<^verbatim>\<open>params\<close>, written as a function of
  the defaults and of the contents of the overlay; \<open>merged_store\<close> is the store after the
  two loops. The lemmas below prove that the methods compute exactly this.
\<close>

definition override :: "pydict \<Rightarrow> string \<Rightarrow> pyval \<Rightarrow> pyval" where
  "override ov k v = (case map_of ov k of None \<Rightarrow> v | Some v' \<Rightarrow> v')"

definition merged :: "pydict \<Rightarrow> pydict \<Rightarrow> pydict" where
  "merged defaults ov = map (\<lambda>(k, v). (k, override ov k v)) defaults"

definition merged_store :: "pydict \<Rightarrow> 'a facade \<Rightarrow> store \<Rightarrow> store" where
  "merged_store ds self h =
     h\<lparr>cells := (cells h)(nxt h := merged ds (cells h (var_params self))),
       nxt := Suc (nxt h)\<rparr>"

section \<open>Concrete inputs\<close>

text \<open>
  A three-row dataset, a routine that labels every row 0, a routine that always raises, a
  store whose dictionary at address 0 is \<^verbatim>\<open>{'max_iter': 50, 'bogus': 1}\<close>, one where it is
  \<^verbatim>\<open>{}\<close>, and the attribute names that a plain object inherits.
\<close>

definition ex_data :: "int list list" where
  "ex_data = [[0, 0], [0, 1], [5, 5]]"

definition ex_routine :: "int routine" where
  "ex_routine solution d = Inr (map (\<lambda>row. 0) d)"

definition ex_failing :: "int routine" where
  "ex_failing solution d = Inl (RoutineError ''bad input'')"

definition ex_store :: store where
  "ex_store = \<lparr>cells = (\<lambda>a. [])(0 := [(''max_iter'', PInt 50), (''bogus'', PInt 1)]), nxt = 1\<rparr>"

definition empty_store :: store where
  "empty_store = \<lparr>cells = (\<lambda>a. []), nxt = 1\<rparr>"

definition ex_inherited :: namespace where
  "ex_inherited =
     [(''__class__'', True), (''__doc__'', False), (''__module__'', False),
      (''__init__'', True), (''__repr__'', True), (''__dict__'', False)]"

section \<open>The store after the two loops\<close>

lemma cells_setitem: "cells (setitem a k v h) = (cells h)(a := AList.update k v (cells h a))"
  by (simp add: setitem_def)

lemma fold_setitem:
  "fold (\<lambda>(k, v). setitem a k v) ds h =
     h\<lparr>cells := (cells h)(a := fold (\<lambda>(k, v). AList.update k v) ds (cells h a))\<rparr>"
  by (induction ds arbitrary: h) (auto simp: setitem_def)

lemma update_fresh: "k \<notin> fst ` set d \<Longrightarrow> AList.update k v d = d @ [(k, v)]"
  by (induction d) auto

lemma fold_update_distinct:
  "distinct (map fst (acc @ ds)) \<Longrightarrow> fold (\<lambda>(k, v). AList.update k v) ds acc = acc @ ds"
proof (induction ds arbitrary: acc)
  case Nil
  then show ?case by simp
next
  case (Cons p ds)
  obtain k v where p: "p = (k, v)" by (cases p)
  from Cons.prems have fresh: "k \<notin> fst ` set acc" by (auto simp: p)
  from Cons.prems have "distinct (map fst ((acc @ [(k, v)]) @ ds))" by (simp add: p)
  then have "fold (\<lambda>(k, v). AList.update k v) ds (acc @ [(k, v)]) = (acc @ [(k, v)]) @ ds"
    by (rule Cons.IH)
  then show ?case by (simp add: p update_fresh [OF fresh])
qed

lemma default_params_eq:
  "distinct (map fst ds) \<Longrightarrow>
   default_params ds h = (nxt h, h\<lparr>cells := (cells h)(nxt h := ds), nxt := Suc (nxt h)\<rparr>)"
  using fold_update_distinct [of "[]" ds]
  by (simp add: default_params_def new_dict_def fold_setitem)

lemma map_other_keys:
  "k \<notin> fst ` set d \<Longrightarrow> map (\<lambda>(k', v). (k', if k' = k then x else v)) d = d"
  by (induction d) auto

lemma update_present:
  "distinct (map fst d) \<Longrightarrow> k \<in> fst ` set d \<Longrightarrow>
   AList.update k x d = map (\<lambda>(k', v). (k', if k' = k then x else v)) d"
  by (induction d) (auto simp: map_other_keys)

lemma keys_map_snd: "map fst (map (\<lambda>(k, v). (k, f k v)) d) = map fst d"
  by (induction d) auto

lemma assign_overlap_eq:
  assumes "p \<noteq> vp"
  shows "distinct (map fst (cells h p)) \<Longrightarrow> set ks \<subseteq> fst ` set (cells h p) \<Longrightarrow>
         set ks \<subseteq> fst ` set (cells h vp) \<Longrightarrow>
         assign_overlap p vp ks h =
           (None, h\<lparr>cells := (cells h)(p :=
              map (\<lambda>(k, v). (k, if k \<in> set ks then override (cells h vp) k v else v))
                (cells h p))\<rparr>)"
proof (induction ks arbitrary: h)
  case Nil
  then show ?case by (simp add: map_idI case_prod_unfold)
next
  case (Cons k ks)
  from Cons.prems(3) have "map_of (cells h vp) k \<noteq> None"
    by (simp add: map_of_eq_None_iff)
  then obtain x where x: "map_of (cells h vp) k = Some x" by blast
  let ?h = "setitem p k x h"
  have cp: "cells ?h p = map (\<lambda>(k', v). (k', if k' = k then x else v)) (cells h p)"
    using Cons.prems by (simp add: cells_setitem update_present)
  have cv: "cells ?h vp = cells h vp"
    using assms by (simp add: cells_setitem)
  have keys: "map fst (cells ?h p) = map fst (cells h p)"
    unfolding cp by (rule keys_map_snd)
  let ?A = "map (\<lambda>(k, v). (k, if k \<in> set ks then override (cells ?h vp) k v else v))
              (cells ?h p)"
  let ?B = "map (\<lambda>(k', v). (k', if k' \<in> set (k # ks) then override (cells h vp) k' v else v))
              (cells h p)"
  have AB: "?A = ?B"
    by (auto simp: cp cv override_def x)
  have "assign_overlap p vp (k # ks) h = assign_overlap p vp ks ?h"
    by (simp add: getitem_def x)
  also have "\<dots> = (None, ?h\<lparr>cells := (cells ?h)(p := ?A)\<rparr>)"
  proof (rule Cons.IH)
    show "distinct (map fst (cells ?h p))" using Cons.prems(1) by (simp only: keys)
    have "fst ` set (cells ?h p) = fst ` set (cells h p)"
      using arg_cong [OF keys, of set] by (simp only: set_map)
    then show "set ks \<subseteq> fst ` set (cells ?h p)"
      using Cons.prems(2) by simp
    show "set ks \<subseteq> fst ` set (cells ?h vp)" using Cons.prems(3) by (simp add: cv)
  qed
  also have "?h\<lparr>cells := (cells ?h)(p := ?A)\<rparr> = h\<lparr>cells := (cells h)(p := ?A)\<rparr>"
    by (simp add: setitem_def)
  finally show ?case by (simp only: AB)
qed

lemma overlay_params_eq:
  assumes "p \<noteq> var_params self" and "distinct (map fst (cells h p))"
  shows "overlay_params p self h =
           (None, h\<lparr>cells := (cells h)(p := merged (cells h p) (cells h (var_params self)))\<rparr>)"
proof -
  let ?ks = "set_and (dict_keys p h) (dict_keys (var_params self) h)"
  have ks: "set ?ks = fst ` set (cells h p) \<inter> fst ` set (cells h (var_params self))"
    by (auto simp: set_and_def dict_keys_def)
  have "map (\<lambda>(k, v). (k, if k \<in> set ?ks then override (cells h (var_params self)) k v else v))
          (cells h p) = merged (cells h p) (cells h (var_params self))"
    unfolding merged_def
  proof (rule map_cong [OF refl])
    fix kv assume mem: "kv \<in> set (cells h p)"
    obtain k v where kv: "kv = (k, v)" by (cases kv)
    have "k \<in> fst ` set (cells h p)" using mem kv by force
    moreover have "k \<notin> fst ` set (cells h (var_params self)) \<Longrightarrow>
                   override (cells h (var_params self)) k v = v"
      by (simp add: override_def map_of_eq_None_iff [THEN iffD2])
    ultimately show "(case kv of (k, v) \<Rightarrow>
                 (k, if k \<in> set ?ks then override (cells h (var_params self)) k v else v)) =
               (case kv of (k, v) \<Rightarrow> (k, override (cells h (var_params self)) k v))"
      by (simp add: kv ks)
  qed
  then show ?thesis
    using assign_overlap_eq [OF assms(1) assms(2), of ?ks] ks
    by (simp add: overlay_params_def)
qed


text \<open>
  The loop runs over a Python set, whose order of iteration is not fixed. The result does
  not depend on it: any list of the same keys, in any order and with repetitions, gives the
  store that the model's order gives.
\<close>

lemma overlay_order_irrelevant:
  assumes ne: "p \<noteq> var_params self" and dist: "distinct (map fst (cells h p))"
    and same: "set ks = set (set_and (dict_keys p h) (dict_keys (var_params self) h))"
  shows "assign_overlap p (var_params self) ks h = overlay_params p self h"
proof -
  let ?ks = "set_and (dict_keys p h) (dict_keys (var_params self) h)"
  have sub: "set ?ks \<subseteq> fst ` set (cells h p)" "set ?ks \<subseteq> fst ` set (cells h (var_params self))"
    by (auto simp: set_and_def dict_keys_def)
  have "assign_overlap p (var_params self) ks h = assign_overlap p (var_params self) ?ks h"
    using assign_overlap_eq [OF ne dist, of ks] assign_overlap_eq [OF ne dist, of ?ks] sub
    by (simp add: same)
  then show ?thesis by (simp add: overlay_params_def)
qed

lemma map_of_merged: "map_of (merged ds ov) k = map_option (override ov k) (map_of ds k)"
  by (induction ds) (auto simp: merged_def)

lemma solution_steps:
  assumes wf: "var_params self < nxt h" and dist: "distinct (map fst ds)"
  shows "default_params ds h = (nxt h, h\<lparr>cells := (cells h)(nxt h := ds), nxt := Suc (nxt h)\<rparr>)"
    and "overlay_params (nxt h) self (h\<lparr>cells := (cells h)(nxt h := ds), nxt := Suc (nxt h)\<rparr>) =
           (None, h\<lparr>cells := (cells h)(nxt h := merged ds (cells h (var_params self))),
                     nxt := Suc (nxt h)\<rparr>)"
proof -
  show "default_params ds h = (nxt h, h\<lparr>cells := (cells h)(nxt h := ds), nxt := Suc (nxt h)\<rparr>)"
    using dist by (rule default_params_eq)
  let ?h1 = "h\<lparr>cells := (cells h)(nxt h := ds), nxt := Suc (nxt h)\<rparr>"
  have "nxt h \<noteq> var_params self" using wf by simp
  moreover have "distinct (map fst (cells ?h1 (nxt h)))" using dist by simp
  ultimately have "overlay_params (nxt h) self ?h1 =
      (None, ?h1\<lparr>cells := (cells ?h1)(nxt h :=
          merged (cells ?h1 (nxt h)) (cells ?h1 (var_params self)))\<rparr>)"
    by (rule overlay_params_eq)
  then show "overlay_params (nxt h) self ?h1 =
           (None, h\<lparr>cells := (cells h)(nxt h := merged ds (cells h (var_params self))),
                     nxt := Suc (nxt h)\<rparr>)"
    using wf by simp
qed

lemma cells_merged_store: "cells (merged_store ds self h) (nxt h) = merged ds (cells h (var_params self))"
  by (simp add: merged_store_def)

lemma solution_generic:
  assumes wf: "var_params self < nxt h" and dist: "distinct (map fst ds)"
    and ra: "read_args (nxt h) names (merged_store ds self h) = Inr args"
  shows "(let (params, h1) = default_params ds h
          in case overlay_params params self h1 of
               (Some e, h2) \<Rightarrow> (Inl e, h2)
             | (None, h2) \<Rightarrow>
                 (case read_args params names h2 of
                    Inl e \<Rightarrow> (Inl e, h2)
                  | Inr args \<Rightarrow> (Inr (params, F args), h2))) =
         (Inr (nxt h, F args), merged_store ds self h)"
  by (simp add: solution_steps [OF wf dist, folded merged_store_def] ra)

lemma kmeans_solution_eq:
  assumes wf: "var_params self < nxt h"
  shows "kmeans_solution self h =
     (Inr (nxt h, \<lparr>cls = ''KMeans'',
                   kwargs = (''n_clusters'', PInt (K self)) #
                            merged kmeans_defaults (cells h (var_params self))\<rparr>),
      merged_store kmeans_defaults self h)"
  unfolding kmeans_solution_def
proof (rule solution_generic [OF wf])
  show "distinct (map fst kmeans_defaults)" by (simp add: kmeans_defaults_def)
  show "read_args (nxt h)
          [''init'', ''n_init'', ''max_iter'', ''tol'', ''precompute_distances'',
           ''verbose'', ''random_state'', ''copy_x'', ''n_jobs'']
          (merged_store kmeans_defaults self h) =
        Inr (merged kmeans_defaults (cells h (var_params self)))"
    by (simp add: getitem_def cells_merged_store kmeans_defaults_def merged_def)
qed


lemma spectral_solution_eq:
  assumes wf: "var_params self < nxt h"
  shows "spectral_solution self h =
     (Inr (nxt h, \<lparr>cls = ''SpectralClustering'',
                   kwargs = (''n_clusters'', PInt (K self)) #
                     map (\<lambda>n. (n, override (cells h (var_params self)) n
                                    (case map_of spectral_defaults n of
                                       None \<Rightarrow> PNone | Some v \<Rightarrow> v)))
                       [''n_neighbors'', ''gamma'', ''eigen_solver'', ''random_state'',
                        ''n_init'', ''affinity'', ''coef0'', ''kernel_params'', ''eigen_tol'',
                        ''assign_labels'']\<rparr>),
      merged_store spectral_defaults self h)"
  unfolding spectral_solution_def
proof (rule solution_generic [OF wf])
  show "distinct (map fst spectral_defaults)" by (simp add: spectral_defaults_def)
  show "read_args (nxt h)
          [''n_neighbors'', ''gamma'', ''eigen_solver'', ''random_state'', ''n_init'',
           ''affinity'', ''coef0'', ''kernel_params'', ''eigen_tol'', ''assign_labels'']
          (merged_store spectral_defaults self h) =
        Inr (map (\<lambda>n. (n, override (cells h (var_params self)) n
                            (case map_of spectral_defaults n of
                               None \<Rightarrow> PNone | Some v \<Rightarrow> v)))
               [''n_neighbors'', ''gamma'', ''eigen_solver'', ''random_state'',
                ''n_init'', ''affinity'', ''coef0'', ''kernel_params'', ''eigen_tol'',
                ''assign_labels''])"
    by (simp add: getitem_def cells_merged_store spectral_defaults_def merged_def)
qed

lemma agglomerative_solution_eq:
  assumes wf: "var_params self < nxt h"
  shows "agglomerative_solution self h =
     (Inr (nxt h, \<lparr>cls = ''AgglomerativeClustering'',
                   kwargs = (''n_clusters'', PInt (K self)) #
                            merged agglomerative_defaults (cells h (var_params self))\<rparr>),
      merged_store agglomerative_defaults self h)"
  unfolding agglomerative_solution_def
proof (rule solution_generic [OF wf])
  show "distinct (map fst agglomerative_defaults)" by (simp add: agglomerative_defaults_def)
  show "read_args (nxt h)
          [''affinity'', ''connectivity'', ''n_components'', ''compute_full_tree'',
           ''linkage'', ''pooling_func'']
          (merged_store agglomerative_defaults self h) =
        Inr (merged agglomerative_defaults (cells h (var_params self)))"
    by (simp add: getitem_def cells_merged_store agglomerative_defaults_def merged_def)
qed

lemma DBSCAN_solution_eq:
  assumes wf: "var_params self < nxt h"
  shows "DBSCAN_solution self h =
     (Inr (nxt h, \<lparr>cls = ''DBSCAN'',
                   kwargs = merged DBSCAN_defaults (cells h (var_params self))\<rparr>),
      merged_store DBSCAN_defaults self h)"
  unfolding DBSCAN_solution_def
proof (rule solution_generic [OF wf])
  show "distinct (map fst DBSCAN_defaults)" by (simp add: DBSCAN_defaults_def)
  show "read_args (nxt h)
          [''eps'', ''min_samples'', ''metric'', ''algorithm'', ''leaf_size'', ''p'',
           ''random_state'']
          (merged_store DBSCAN_defaults self h) =
        Inr (merged DBSCAN_defaults (cells h (var_params self)))"
    by (simp add: getitem_def cells_merged_store DBSCAN_defaults_def merged_def)
qed

lemma run_algorithm_solution:
  "run_algorithm ext A self h = fit_and_store ext (solution_of A self h) self"
  by (cases A) (simp_all add: kmeans_def spectral_def agglomerative_def DBSCAN_def)

lemma solution_of_eq:
  assumes wf: "var_params self < nxt h"
  shows "\<exists>est. solution_of A self h = (Inr (nxt h, est), merged_store (defaults_of A) self h)"
  by (cases A)
     (simp_all add: kmeans_solution_eq [OF wf] spectral_solution_eq [OF wf]
        agglomerative_solution_eq [OF wf] DBSCAN_solution_eq [OF wf])


section \<open>What a call leaves alone\<close>

lemma default_params_frame:
  "default_params ds h = (p, h1) \<Longrightarrow>
     p = nxt h \<and> nxt h1 = Suc (nxt h) \<and> (\<forall>a. a \<noteq> nxt h \<longrightarrow> cells h1 a = cells h a)"
  by (auto simp: default_params_def new_dict_def fold_setitem)

lemma assign_overlap_frame:
  "assign_overlap p vp ks h = (r, h') \<Longrightarrow>
     nxt h' = nxt h \<and> (\<forall>a. a \<noteq> p \<longrightarrow> cells h' a = cells h a)"
proof (induction ks arbitrary: h)
  case Nil
  then show ?case by simp
next
  case (Cons k ks)
  show ?case
  proof (cases "getitem vp k h")
    case (Inl e)
    with Cons.prems show ?thesis by simp
  next
    case (Inr v)
    with Cons.prems have "assign_overlap p vp ks (setitem p k v h) = (r, h')" by simp
    from Cons.IH [OF this] show ?thesis by (simp add: setitem_def)
  qed
qed

lemma solution_generic_frame:
  assumes "(let (params, h1) = default_params ds h
            in case overlay_params params self h1 of
                 (Some e, h2) \<Rightarrow> (Inl e, h2)
               | (None, h2) \<Rightarrow>
                   (case read_args params names h2 of
                      Inl e \<Rightarrow> (Inl e, h2)
                    | Inr args \<Rightarrow> (Inr (params, F args), h2))) = (r, h')"
  shows "nxt h' = Suc (nxt h) \<and> (\<forall>a. a \<noteq> nxt h \<longrightarrow> cells h' a = cells h a) \<and>
         (\<forall>p est. r = Inr (p, est) \<longrightarrow> p = nxt h)"
proof -
  obtain p h1 where dp: "default_params ds h = (p, h1)" by (cases "default_params ds h")
  obtain e h2 where op: "overlay_params p self h1 = (e, h2)" by (cases "overlay_params p self h1")
  from default_params_frame [OF dp]
  have p: "p = nxt h" and n1: "nxt h1 = Suc (nxt h)"
    and c1: "\<forall>a. a \<noteq> nxt h \<longrightarrow> cells h1 a = cells h a" by simp_all
  from op assign_overlap_frame [of p "var_params self" _ h1 e h2]
  have n2: "nxt h2 = nxt h1" and c2: "\<forall>a. a \<noteq> p \<longrightarrow> cells h2 a = cells h1 a"
    by (simp_all add: overlay_params_def)
  from assms have "h' = h2" and "\<forall>q est. r = Inr (q, est) \<longrightarrow> q = p"
    by (auto simp: dp op split: option.splits sum.splits)
  then show ?thesis using p n1 c1 n2 c2 by simp
qed

lemma solution_of_frame:
  assumes "solution_of A self h = (r, h')"
  shows "nxt h' = Suc (nxt h) \<and> (\<forall>a. a \<noteq> nxt h \<longrightarrow> cells h' a = cells h a) \<and>
         (\<forall>p est. r = Inr (p, est) \<longrightarrow> p = nxt h)"
proof (cases A)
  case Kmeans
  with assms have "kmeans_solution self h = (r, h')" by simp
  then show ?thesis unfolding kmeans_solution_def by (rule solution_generic_frame)
next
  case Spectral
  with assms have "spectral_solution self h = (r, h')" by simp
  then show ?thesis unfolding spectral_solution_def by (rule solution_generic_frame)
next
  case Agglomerative
  with assms have "agglomerative_solution self h = (r, h')" by simp
  then show ?thesis unfolding agglomerative_solution_def by (rule solution_generic_frame)
next
  case Dbscan
  with assms have "DBSCAN_solution self h = (r, h')" by simp
  then show ?thesis unfolding DBSCAN_solution_def by (rule solution_generic_frame)
qed

lemma run_algorithm_frame:
  assumes "run_algorithm ext A self h = (r, self', h')"
  shows "nxt h' = Suc (nxt h) \<and> (\<forall>a. a \<noteq> nxt h \<longrightarrow> cells h' a = cells h a) \<and>
         ((\<exists>e. r = Inl e \<and> self' = self) \<or>
          (\<exists>labels. r = Inr PNone \<and> self' = self\<lparr>out := labels, var_params := nxt h\<rparr>))"
proof -
  obtain s h2 where sol: "solution_of A self h = (s, h2)" by (cases "solution_of A self h")
  note fr = solution_of_frame [OF sol]
  from assms have "fit_and_store ext (s, h2) self = (r, self', h')"
    by (simp add: run_algorithm_solution sol)
  then have "h' = h2 \<and> ((\<exists>e. r = Inl e \<and> self' = self) \<or>
          (\<exists>labels. r = Inr PNone \<and> self' = self\<lparr>out := labels, var_params := nxt h\<rparr>))"
    using fr by (auto simp: fit_and_store_def split: sum.splits)
  then show ?thesis using fr by simp
qed

lemma fill_methodDict_frame:
  "nxt (fill_methodDict d ms h) = nxt h \<and>
   (\<forall>a. a \<noteq> d \<longrightarrow> cells (fill_methodDict d ms h) a = cells h a)"
  by (induction ms arbitrary: h) (simp_all add: setitem_def)

lemma available_frame:
  assumes "clustering_algorithms_available inh self h = (r, self', h')"
  shows "self' = self \<and> nxt h \<le> nxt h' \<and> (\<forall>a. a < nxt h \<longrightarrow> cells h' a = cells h a)"
  using assms fill_methodDict_frame [of "nxt h"]
  by (auto simp: clustering_algorithms_available_def new_dict_def split: sum.splits)

lemma invoke_frame:
  assumes "invoke ext inh m self h = (r, self', h')"
  shows "nxt h \<le> nxt h' \<and> (\<forall>a. a < nxt h \<longrightarrow> cells h' a = cells h a) \<and>
         data self' = data self \<and> K self' = K self \<and>
         (var_params self < nxt h \<longrightarrow> var_params self' < nxt h')"
proof (cases m)
  case (Algorithm A)
  with assms have "run_algorithm ext A self h = (r, self', h')" by simp
  from run_algorithm_frame [OF this] show ?thesis by auto
next
  case Available
  with assms have "clustering_algorithms_available inh self h = (r, self', h')" by simp
  from available_frame [OF this] show ?thesis by auto
qed

lemma invoke_all_frame:
  "invoke_all ext inh ms self h = (self', h') \<Longrightarrow>
     nxt h \<le> nxt h' \<and> (\<forall>a. a < nxt h \<longrightarrow> cells h' a = cells h a) \<and>
     data self' = data self \<and> K self' = K self \<and>
     (var_params self < nxt h \<longrightarrow> var_params self' < nxt h')"
proof (induction ms arbitrary: self h)
  case Nil
  then show ?case by simp
next
  case (Cons m ms)
  obtain r s1 h1 where step: "invoke ext inh m self h = (r, s1, h1)"
    by (cases "invoke ext inh m self h")
  with Cons.prems have rest: "invoke_all ext inh ms s1 h1 = (self', h')" by simp
  from invoke_frame [OF step] Cons.IH [OF rest] show ?case by auto
qed

section \<open>What a method stores\<close>

lemma merged_empty: "merged ds [] = ds"
  by (induction ds) (auto simp: merged_def override_def)

lemma run_algorithm_returned:
  assumes wf: "var_params self < nxt h" and ret: "returned (run_algorithm ext A self h)"
  shows "\<exists>labels. run_algorithm ext A self h =
           (Inr PNone, self\<lparr>out := labels, var_params := nxt h\<rparr>,
            merged_store (defaults_of A) self h)"
proof -
  from solution_of_eq [OF wf, of A] obtain est where
    "solution_of A self h = (Inr (nxt h, est), merged_store (defaults_of A) self h)" ..
  with ret show ?thesis
    by (auto simp: run_algorithm_solution fit_and_store_def returned_def split: sum.splits)
qed

lemma effective_options_returned:
  assumes wf: "var_params self < nxt h" and ret: "returned (run_algorithm ext A self h)"
  shows "effective_options (run_algorithm ext A self h) =
           merged (defaults_of A) (cells h (var_params self))"
  using run_algorithm_returned [OF wf ret]
  by (auto simp: effective_options_def stored_options_def merged_store_def)

lemma keys_merged: "map fst (merged ds ov) = map fst ds"
  unfolding merged_def by (rule keys_map_snd)

lemma distinct_defaults: "distinct (map fst (defaults_of A))"
  by (cases A)
     (simp_all add: kmeans_defaults_def spectral_defaults_def agglomerative_defaults_def
        DBSCAN_defaults_def)

lemma merged_lookup:
  "(\<forall>key v. key \<in> fst ` set ds \<and> map_of ov key = Some v \<longrightarrow>
              map_of (merged ds ov) key = Some v) \<and>
   (\<forall>key. key \<notin> fst ` set ds \<longrightarrow> map_of (merged ds ov) key = None) \<and>
   (\<forall>key. key \<notin> fst ` set ov \<longrightarrow> map_of (merged ds ov) key = map_of ds key) \<and>
   (ov = [] \<longrightarrow> merged ds ov = ds)"
proof -
  have "map_of (merged ds ov) key = Some v"
    if "key \<in> fst ` set ds" and "map_of ov key = Some v" for key v
  proof -
    from that(1) obtain v0 where "map_of ds key = Some v0"
      by (cases "map_of ds key") (simp_all add: map_of_eq_None_iff)
    with that(2) show ?thesis by (simp add: map_of_merged override_def)
  qed
  moreover have "map_of (merged ds ov) key = None" if "key \<notin> fst ` set ds" for key
    using that by (simp add: map_of_merged map_of_eq_None_iff)
  moreover have "map_of (merged ds ov) key = map_of ds key" if "key \<notin> fst ` set ov" for key
  proof -
    from that have "map_of ov key = None" by (simp add: map_of_eq_None_iff)
    then show ?thesis
      by (cases "map_of ds key") (simp_all add: map_of_merged override_def)
  qed
  ultimately show ?thesis by (simp add: merged_empty)
qed

lemma run_algorithm_when_routine_returns:
  assumes wf: "var_params self < nxt h"
    and sol: "solution_of A self h = (Inr (p, est), h')"
    and fit: "ext est (data self) = Inr labels"
  shows "returned (run_algorithm ext A self h) \<and>
         effective_options (run_algorithm ext A self h) =
           merged (defaults_of A) (cells h (var_params self))"
proof -
  have ret: "returned (run_algorithm ext A self h)"
    by (simp add: run_algorithm_solution sol fit_and_store_def fit returned_def)
  with effective_options_returned [OF wf ret] show ?thesis by simp
qed

section \<open>Two facades whose overlays have the same contents\<close>

lemma solution_of_same_contents:
  assumes wf: "var_params self < nxt h" and wf': "var_params self' < nxt h'"
    and k: "K self' = K self"
    and ov: "cells h' (var_params self') = cells h (var_params self)"
  shows "\<exists>est. solution_of A self h = (Inr (nxt h, est), merged_store (defaults_of A) self h) \<and>
               solution_of A self' h' =
                 (Inr (nxt h', est), merged_store (defaults_of A) self' h')"
  by (cases A)
     (simp_all add: kmeans_solution_eq [OF wf] spectral_solution_eq [OF wf]
        agglomerative_solution_eq [OF wf] DBSCAN_solution_eq [OF wf]
        kmeans_solution_eq [OF wf'] spectral_solution_eq [OF wf']
        agglomerative_solution_eq [OF wf'] DBSCAN_solution_eq [OF wf'] k ov)

lemma run_algorithm_same_contents:
  assumes wf: "var_params self < nxt h" and wf': "var_params self' < nxt h'"
    and d: "data self' = data self" and k: "K self' = K self"
    and ov: "cells h' (var_params self') = cells h (var_params self)"
  shows "fst (run_algorithm ext A self' h') = fst (run_algorithm ext A self h) \<and>
         out (facade_of (run_algorithm ext A self' h')) =
           (if returned (run_algorithm ext A self h)
            then out (facade_of (run_algorithm ext A self h)) else out self') \<and>
         effective_options (run_algorithm ext A self' h') =
           effective_options (run_algorithm ext A self h)"
proof -
  from solution_of_same_contents [OF wf wf' k ov, of A] obtain est where
    s: "solution_of A self h = (Inr (nxt h, est), merged_store (defaults_of A) self h)" and
    s': "solution_of A self' h' = (Inr (nxt h', est), merged_store (defaults_of A) self' h')"
    by blast
  show ?thesis
    using wf wf'
    by (cases "ext est (data self)")
       (simp_all add: run_algorithm_solution s s' fit_and_store_def d ov returned_def
          facade_of_def effective_options_def stored_options_def merged_store_def)
qed

section \<open>The arguments of the estimators\<close>

lemma map_of_merged_Some:
  "map_of (merged ds ov) key = Some v \<Longrightarrow>
     \<exists>v0. map_of ds key = Some v0 \<and> v = override ov key v0"
  by (cases "map_of ds key") (simp_all add: map_of_merged)

lemma n_clusters_not_default: "map_of (defaults_of A) ''n_clusters'' = None"
  by (cases A)
     (simp_all add: kmeans_defaults_def spectral_defaults_def agglomerative_defaults_def
        DBSCAN_defaults_def)

lemma with_cluster_count:
  assumes "map_of (defaults_of A) ''n_clusters'' = None"
    and "map_of (merged (defaults_of A) ov) key = Some v"
  shows "map_of ((''n_clusters'', PInt k) # merged (defaults_of A) ov) key = Some v"
proof -
  from assms have "key \<noteq> ''n_clusters''" by (auto simp: map_of_merged)
  with assms(2) show ?thesis by simp
qed

lemma spectral_args_cover:
  assumes m: "map_of (merged spectral_defaults ov) key = Some v" and nd: "key \<noteq> ''degree''"
  shows "map_of ((''n_clusters'', PInt k) #
                 map (\<lambda>n. (n, override ov n
                                (case map_of spectral_defaults n of
                                   None \<Rightarrow> PNone | Some v \<Rightarrow> v)))
                   [''n_neighbors'', ''gamma'', ''eigen_solver'', ''random_state'',
                    ''n_init'', ''affinity'', ''coef0'', ''kernel_params'', ''eigen_tol'',
                    ''assign_labels'']) key = Some v"
proof -
  let ?names = "[''n_neighbors'', ''gamma'', ''eigen_solver'', ''random_state'',
                 ''n_init'', ''affinity'', ''coef0'', ''kernel_params'', ''eigen_tol'',
                 ''assign_labels'']"
  from map_of_merged_Some [OF m] obtain v0 where
    v0: "map_of spectral_defaults key = Some v0" and v: "v = override ov key v0" by blast
  from v0 have "key \<in> fst ` set spectral_defaults"
    by (metis map_of_eq_None_iff option.distinct(1))
  with nd have mem: "key \<in> set ?names" by (auto simp: spectral_defaults_def)
  then have "key \<noteq> ''n_clusters''" by auto
  moreover have "map_of (map (\<lambda>n. (n, override ov n
                                (case map_of spectral_defaults n of
                                   None \<Rightarrow> PNone | Some v \<Rightarrow> v))) ?names) key = Some v"
    unfolding map_of_map_restrict using mem by (simp only: restrict_in o_def v0 v option.case)
  ultimately show ?thesis by (simp only: map_of.simps fst_conv snd_conv fun_upd_apply if_False)
qed

section \<open>The names that discovery lists\<close>

lemma map_of_constant:
  "m \<in> fst ` set xs \<Longrightarrow> \<forall>p \<in> set xs. snd p = v \<Longrightarrow> map_of xs m = Some v"
  by (induction xs) auto

lemma instance_not_callable:
  assumes "m \<in> fst ` set instance_attrs"
  shows "\<not> callable_attr inherited m"
proof -
  have "\<forall>p \<in> set instance_attrs. snd p = False" by (simp add: instance_attrs_def)
  with assms have "map_of instance_attrs m = Some False" by (rule map_of_constant)
  then show ?thesis by (simp add: callable_attr_def map_add_def)
qed

lemma class_names:
  "fst ` set class_attrs =
     {''__init__'', ''clustering_algorithms_available'', ''kmeans'', ''spectral'',
      ''agglomerative'', ''DBSCAN''}"
  by (simp add: class_attrs_def)

lemma instance_names: "fst ` set instance_attrs = {''data'', ''out'', ''var_params'', ''K''}"
  by (simp add: instance_attrs_def)

lemma class_callable:
  assumes "m \<in> fst ` set class_attrs"
  shows "callable_attr inherited m"
proof -
  have "\<forall>p \<in> set class_attrs. snd p = True" by (simp add: class_attrs_def)
  with assms have c: "map_of class_attrs m = Some True" by (rule map_of_constant)
  from assms have "m \<notin> fst ` set instance_attrs"
    unfolding class_names instance_names by auto
  then have "map_of instance_attrs m = None" by (simp add: map_of_eq_None_iff)
  with c show ?thesis by (simp add: callable_attr_def map_add_def)
qed

lemma dir_self_names:
  "set (dir_self inherited) =
     fst ` set instance_attrs \<union> fst ` set class_attrs \<union> fst ` set inherited"
  by (auto simp: dir_self_def)

lemma init_is_dunder: "re_match_dunder ''__init__''"
  by (simp add: re_match_dunder_def)

lemma algorithms_not_dunder:
  "\<not> re_match_dunder ''clustering_algorithms_available''"
  "\<not> re_match_dunder ''kmeans''"
  "\<not> re_match_dunder ''spectral''"
  "\<not> re_match_dunder ''agglomerative''"
  "\<not> re_match_dunder ''DBSCAN''"
  by (simp_all add: re_match_dunder_def)

lemma callable_names_sub:
  assumes inh: "\<forall>name \<in> fst ` set inherited. re_match_dunder name"
    and mem: "m \<in> set (dir_self inherited)"
    and c: "callable_attr inherited m" and nd: "\<not> re_match_dunder m"
  shows "m \<in> {''clustering_algorithms_available'', ''kmeans'', ''spectral'', ''agglomerative'',
               ''DBSCAN''}"
proof -
  from nd inh have n1: "m \<notin> fst ` set inherited" by auto
  from c have n2: "m \<notin> fst ` set instance_attrs"
    using instance_not_callable [of m inherited] by auto
  from mem n1 n2 have "m \<in> fst ` set class_attrs"
    unfolding dir_self_names by simp
  then have "m \<in> {''__init__'', ''clustering_algorithms_available'', ''kmeans'', ''spectral'',
                   ''agglomerative'', ''DBSCAN''}"
    by (simp only: class_names)
  moreover have "m \<noteq> ''__init__''" using nd init_is_dunder by metis
  ultimately show ?thesis by simp
qed

lemma set_update_subset: "set (AList.update k v al) \<subseteq> insert (k, v) (set al)"
  by (induction al) auto

lemma fill_methodDict_keys:
  "fst ` set (cells (fill_methodDict d ms h) d) =
     fst ` set (cells h d) \<union> {m \<in> set ms. \<not> re_match_dunder m}"
  by (induction ms arbitrary: h) (auto simp: setitem_def dom_update)

lemma fill_methodDict_values:
  "snd ` set (cells (fill_methodDict d ms h) d) \<subseteq> insert (PStr '''') (snd ` set (cells h d))"
proof (induction ms arbitrary: h)
  case Nil
  then show ?case by auto
next
  case (Cons m ms)
  show ?case
  proof (cases "re_match_dunder m")
    case True
    with Cons.IH [of h] show ?thesis by simp
  next
    case False
    let ?h = "setitem d m (PStr '''') h"
    have "snd ` set (cells ?h d) \<subseteq> insert (PStr '''') (snd ` set (cells h d))"
      using set_update_subset [of m "PStr ''''" "cells h d"]
      by (auto simp: setitem_def)
    with Cons.IH [of ?h] False show ?thesis by auto
  qed
qed

lemma callable_names_sup:
  assumes "m \<in> {''kmeans'', ''spectral'', ''agglomerative'', ''DBSCAN''}"
  shows "m \<in> set (dir_self inherited) \<and> callable_attr inherited m \<and>
         m \<noteq> ''clustering_algorithms_available'' \<and> \<not> re_match_dunder m"
proof -
  from assms have cl: "m \<in> fst ` set class_attrs" by (simp only: class_names) simp
  then have "m \<in> set (dir_self inherited)" by (simp add: dir_self_names)
  moreover have "callable_attr inherited m" using cl by (rule class_callable)
  moreover have "m \<noteq> ''clustering_algorithms_available'' \<and> \<not> re_match_dunder m"
    using assms algorithms_not_dunder by auto
  ultimately show ?thesis by simp
qed

lemma methods_listed:
  assumes inh: "\<forall>name \<in> fst ` set inherited. re_match_dunder name"
  shows "list_remove ''clustering_algorithms_available''
           (filter (callable_attr inherited) (dir_self inherited)) =
         Inr (remove1 ''clustering_algorithms_available''
                (filter (callable_attr inherited) (dir_self inherited)))"
    and "{m \<in> set (remove1 ''clustering_algorithms_available''
                      (filter (callable_attr inherited) (dir_self inherited))).
            \<not> re_match_dunder m} =
         {''kmeans'', ''spectral'', ''agglomerative'', ''DBSCAN''}"
proof -
  let ?c = "''clustering_algorithms_available''"
  let ?ms = "filter (callable_attr inherited) (dir_self inherited)"
  have cl: "?c \<in> fst ` set class_attrs" by (simp only: class_names) simp
  then have "?c \<in> set (dir_self inherited)" by (simp add: dir_self_names)
  moreover have "callable_attr inherited ?c" using cl by (rule class_callable)
  ultimately have "?c \<in> set ?ms" by simp
  then show "list_remove ?c ?ms = Inr (remove1 ?c ?ms)" by (simp add: list_remove_def)
  have "distinct ?ms" by (simp add: dir_self_def)
  then have rm: "set (remove1 ?c ?ms) = set ?ms - {?c}" by (rule set_remove1_eq)
  show "{m \<in> set (remove1 ?c ?ms). \<not> re_match_dunder m} =
          {''kmeans'', ''spectral'', ''agglomerative'', ''DBSCAN''}" (is "?L = ?R")
  proof (rule set_eqI)
    fix m
    show "m \<in> ?L \<longleftrightarrow> m \<in> ?R"
    proof
      assume "m \<in> ?L"
      then have "m \<in> set (dir_self inherited)" and "callable_attr inherited m"
        and "\<not> re_match_dunder m" and ne: "m \<noteq> ?c"
        by (simp_all add: rm)
      with callable_names_sub [OF inh, of m] show "m \<in> ?R" by simp
    next
      assume "m \<in> ?R"
      from callable_names_sup [OF this, of inherited] show "m \<in> ?L" by (simp add: rm)
    qed
  qed
qed

section \<open>Evaluating the methods at the concrete inputs\<close>

lemma ex_routine_returns:
  assumes wf: "var_params self < nxt h"
  shows "returned (run_algorithm ex_routine A self h)"
proof -
  from solution_of_eq [OF wf, of A] obtain est where
    "solution_of A self h = (Inr (nxt h, est), merged_store (defaults_of A) self h)" ..
  then show ?thesis
    by (simp add: run_algorithm_solution fit_and_store_def returned_def ex_routine_def)
qed

lemma ex_DBSCAN_empty:
  "DBSCAN ex_routine (init ex_data 0 2) empty_store =
     (Inr PNone, (init ex_data 0 2)\<lparr>out := [0, 0, 0], var_params := 1\<rparr>,
      merged_store DBSCAN_defaults (init ex_data 0 2) empty_store)"
  by (simp add: DBSCAN_def DBSCAN_solution_eq fit_and_store_def ex_routine_def empty_store_def
        init_def ex_data_def)

lemma ex_failing_kmeans:
  "kmeans ex_failing (init ex_data 0 2) ex_store =
     (Inl (RoutineError ''bad input''), init ex_data 0 2,
      merged_store kmeans_defaults (init ex_data 0 2) ex_store)"
  by (simp add: kmeans_def kmeans_solution_eq fit_and_store_def ex_failing_def ex_store_def
        init_def)

lemma ex_agglomerative_empty:
  "agglomerative ex_routine (init ex_data 0 2) empty_store =
     (Inr PNone, (init ex_data 0 2)\<lparr>out := [0, 0, 0], var_params := 1\<rparr>,
      merged_store agglomerative_defaults (init ex_data 0 2) empty_store)"
  by (simp add: agglomerative_def agglomerative_solution_eq fit_and_store_def ex_routine_def
        empty_store_def init_def ex_data_def)

lemma ex_spectral_empty:
  "spectral ex_routine (init ex_data 0 2) empty_store =
     (Inr PNone, (init ex_data 0 2)\<lparr>out := [0, 0, 0], var_params := 1\<rparr>,
      merged_store spectral_defaults (init ex_data 0 2) empty_store)"
  by (simp add: spectral_def spectral_solution_eq fit_and_store_def ex_routine_def
        empty_store_def init_def ex_data_def)

lemma ex_spectral_after_agglomerative:
  "spectral ex_routine ((init ex_data 0 2)\<lparr>out := [0, 0, 0], var_params := Suc 0\<rparr>)
     (merged_store agglomerative_defaults (init ex_data 0 2) empty_store) =
   (Inr PNone, (init ex_data 0 2)\<lparr>out := [0, 0, 0], var_params := 2\<rparr>,
    merged_store spectral_defaults ((init ex_data 0 2)\<lparr>out := [0, 0, 0], var_params := 1\<rparr>)
      (merged_store agglomerative_defaults (init ex_data 0 2) empty_store))"
  by (simp add: spectral_def spectral_solution_eq fit_and_store_def ex_routine_def
        merged_store_def empty_store_def init_def ex_data_def)

lemma ex_DBSCAN_solution:
  "DBSCAN_solution (init ex_data 0 7) empty_store =
     (Inr (1, \<lparr>cls = ''DBSCAN'',
               kwargs = [(''eps'', PFloat 0.5), (''min_samples'', PInt 5),
                         (''metric'', PStr ''euclidean''), (''algorithm'', PStr ''auto''),
                         (''leaf_size'', PTuple [PInt 30]), (''p'', PTuple [PNone]),
                         (''random_state'', PNone)]\<rparr>),
      merged_store DBSCAN_defaults (init ex_data 0 7) empty_store)"
  by (simp add: DBSCAN_solution_eq init_def empty_store_def merged_def override_def
        DBSCAN_defaults_def)

lemma ex_spectral_solution:
  "spectral_solution (init ex_data 0 7) empty_store =
     (Inr (1, \<lparr>cls = ''SpectralClustering'',
               kwargs = [(''n_clusters'', PInt 7), (''n_neighbors'', PInt 10),
                         (''gamma'', PFloat 1), (''eigen_solver'', PNone),
                         (''random_state'', PNone), (''n_init'', PInt 10),
                         (''affinity'', PStr ''rbf''), (''coef0'', PInt 1),
                         (''kernel_params'', PNone), (''eigen_tol'', PStr ''0.0''),
                         (''assign_labels'', PStr ''kmeans'')]\<rparr>),
      merged_store spectral_defaults (init ex_data 0 7) empty_store)"
  by (simp add: spectral_solution_eq init_def empty_store_def override_def
        spectral_defaults_def)

lemma ex_failing_kmeans_empty:
  "kmeans ex_failing (init ex_data 0 2) empty_store =
     (Inl (RoutineError ''bad input''), init ex_data 0 2,
      merged_store kmeans_defaults (init ex_data 0 2) empty_store)"
  by (simp add: kmeans_def kmeans_solution_eq fit_and_store_def ex_failing_def empty_store_def
        init_def)

lemma ex_failing_DBSCAN:
  "DBSCAN ex_failing (init ex_data 0 2) ex_store =
     (Inl (RoutineError ''bad input''), init ex_data 0 2,
      merged_store DBSCAN_defaults (init ex_data 0 2) ex_store)"
  by (simp add: DBSCAN_def DBSCAN_solution_eq fit_and_store_def ex_failing_def ex_store_def
        init_def)

section \<open>The claims\<close>

text \<open>
  C1, amended. First invocation after construction, the overlay dictionary \<open>kw\<close> being
  allocated, for each of the four algorithm methods: the method builds its estimator, and
  if the external routine returns labels for that estimator and the dataset, then the
  method returns and: a name that the defaults and the overlay both have is stored with
  the overlay's value; a name that the defaults do not have is absent from the stored
  options, so a name only the overlay has is absent; a name that the overlay does not have
  is stored as in the defaults; with an empty overlay the stored options are the default
  mapping itself.
\<close>

theorem first_invocation_merges_overlay:
  assumes alloc: "kw < nxt h"
  shows "\<exists>params solution h'.
           solution_of A (init d kw k) h = (Inr (params, solution), h') \<and>
           (\<forall>labels. ext solution d = Inr labels \<longrightarrow>
              returned (run_algorithm ext A (init d kw k) h) \<and>
              (\<forall>key v. key \<in> fst ` set (defaults_of A) \<and> map_of (cells h kw) key = Some v \<longrightarrow>
                 map_of (effective_options (run_algorithm ext A (init d kw k) h)) key = Some v) \<and>
              (\<forall>key. key \<notin> fst ` set (defaults_of A) \<longrightarrow>
                 map_of (effective_options (run_algorithm ext A (init d kw k) h)) key = None) \<and>
              (\<forall>key. key \<notin> fst ` set (cells h kw) \<longrightarrow>
                 map_of (effective_options (run_algorithm ext A (init d kw k) h)) key =
                 map_of (defaults_of A) key) \<and>
              (cells h kw = [] \<longrightarrow>
                 effective_options (run_algorithm ext A (init d kw k) h) = defaults_of A))"
proof -
  let ?self = "init d kw k"
  have wf: "var_params ?self < nxt h" using alloc by (simp add: init_def)
  from solution_of_eq [OF wf, of A] obtain est where
    sol: "solution_of A ?self h = (Inr (nxt h, est), merged_store (defaults_of A) ?self h)" ..
  have "returned (run_algorithm ext A ?self h) \<and>
        (\<forall>key v. key \<in> fst ` set (defaults_of A) \<and> map_of (cells h kw) key = Some v \<longrightarrow>
           map_of (effective_options (run_algorithm ext A ?self h)) key = Some v) \<and>
        (\<forall>key. key \<notin> fst ` set (defaults_of A) \<longrightarrow>
           map_of (effective_options (run_algorithm ext A ?self h)) key = None) \<and>
        (\<forall>key. key \<notin> fst ` set (cells h kw) \<longrightarrow>
           map_of (effective_options (run_algorithm ext A ?self h)) key =
           map_of (defaults_of A) key) \<and>
        (cells h kw = [] \<longrightarrow>
           effective_options (run_algorithm ext A ?self h) = defaults_of A)"
    if fit: "ext est d = Inr labels" for labels
  proof -
    from fit have "ext est (data ?self) = Inr labels" by (simp add: init_def)
    from run_algorithm_when_routine_returns [where ext = ext and est = est, OF wf sol this]
    have ret: "returned (run_algorithm ext A ?self h)"
      and eff: "effective_options (run_algorithm ext A ?self h) =
                  merged (defaults_of A) (cells h kw)"
      by (simp_all add: init_def)
    show ?thesis
      unfolding eff using ret merged_lookup [of "defaults_of A" "cells h kw"] by blast
  qed
  with sol show ?thesis by blast
qed

theorem first_invocation_merges_overlay_witness:
  "0 < nxt ex_store \<and> returned (run_algorithm ex_routine Kmeans (init ex_data 0 2) ex_store) \<and>
   map_of (effective_options (run_algorithm ex_routine Kmeans (init ex_data 0 2) ex_store))
     ''max_iter'' = Some (PInt 50) \<and>
   map_of (effective_options (run_algorithm ex_routine Kmeans (init ex_data 0 2) ex_store))
     ''bogus'' = None \<and>
   map_of (effective_options (run_algorithm ex_routine Kmeans (init ex_data 0 2) ex_store))
     ''n_init'' = Some (PInt 10)"
proof -
  let ?run = "run_algorithm ex_routine Kmeans (init ex_data 0 2) ex_store"
  have h1: "0 < nxt ex_store" by (simp add: ex_store_def)
  have fit: "ex_routine solution ex_data = Inr [0, 0, 0]" for solution
    by (simp add: ex_routine_def ex_data_def)
  have ov: "cells ex_store 0 = [(''max_iter'', PInt 50), (''bogus'', PInt 1)]"
    by (simp add: ex_store_def)
  from first_invocation_merges_overlay [OF h1, of Kmeans ex_data 2 ex_routine] fit
  have ret: "returned ?run"
    and both: "\<forall>key v. key \<in> fst ` set (defaults_of Kmeans) \<and>
                 map_of (cells ex_store 0) key = Some v \<longrightarrow>
                 map_of (effective_options ?run) key = Some v"
    and unknown: "\<forall>key. key \<notin> fst ` set (defaults_of Kmeans) \<longrightarrow>
                 map_of (effective_options ?run) key = None"
    and default: "\<forall>key. key \<notin> fst ` set (cells ex_store 0) \<longrightarrow>
                 map_of (effective_options ?run) key = map_of (defaults_of Kmeans) key"
    by blast+
  have "map_of (effective_options ?run) ''max_iter'' = Some (PInt 50)"
    using both [rule_format, of "''max_iter''" "PInt 50"]
    by (simp add: ov kmeans_defaults_def)
  moreover have "map_of (effective_options ?run) ''bogus'' = None"
    using unknown [rule_format, of "''bogus''"] by (simp add: kmeans_defaults_def)
  moreover have "map_of (effective_options ?run) ''n_init'' = Some (PInt 10)"
    using default [rule_format, of "''n_init''"] by (simp add: ov kmeans_defaults_def)
  ultimately show ?thesis using h1 ret by simp
qed

text \<open>
  C1 as stated fails when the external routine raises: the first invocation then stores
  nothing, so the name \<^verbatim>\<open>bogus\<close>, which only the overlay has, is still in the stored
  options, the recognized name \<^verbatim>\<open>n_init\<close> is not, and with the empty overlay the stored
  options are empty and not the default mapping.
\<close>

theorem first_invocation_raising_counterexample:
  "map_of (effective_options (run_algorithm ex_failing Kmeans (init ex_data 0 2) ex_store))
     ''bogus'' = Some (PInt 1) \<and>
   map_of (defaults_of Kmeans) ''bogus'' = None \<and>
   map_of (effective_options (run_algorithm ex_failing Kmeans (init ex_data 0 2) ex_store))
     ''n_init'' = None \<and>
   map_of (defaults_of Kmeans) ''n_init'' = Some (PInt 10) \<and>
   effective_options (run_algorithm ex_failing Kmeans (init ex_data 0 2) empty_store) = [] \<and>
   defaults_of Kmeans \<noteq> []"
  by (simp add: ex_failing_kmeans ex_failing_kmeans_empty effective_options_def
        stored_options_def)
     (simp add: merged_store_def init_def ex_store_def empty_store_def kmeans_defaults_def)

text \<open>
  C3. The claim is that the DBSCAN defaults of \<^verbatim>\<open>leaf_size\<close> and \<^verbatim>\<open>p\<close> are the scalars 30 and
  None. The code at the empty overlay: the stored options map \<^verbatim>\<open>leaf_size\<close> to the tuple
  \<^verbatim>\<open>(30,)\<close> and \<^verbatim>\<open>p\<close> to the tuple \<^verbatim>\<open>(None,)\<close>, against the signature that the method's own
  docstring quotes.
\<close>

theorem DBSCAN_defaults_tuple_wrapped:
  "map_of (effective_options (DBSCAN ex_routine (init ex_data 0 2) empty_store)) ''leaf_size'' =
     Some (PTuple [PInt 30]) \<and>
   map_of (effective_options (DBSCAN ex_routine (init ex_data 0 2) empty_store)) ''p'' =
     Some (PTuple [PNone])"
  unfolding ex_DBSCAN_empty
  by (simp add: effective_options_def stored_options_def merged_store_def empty_store_def
        merged_def override_def DBSCAN_defaults_def)

text \<open>
  C5, amended. On a facade constructed with an allocated overlay dictionary of any
  contents, after any sequence of earlier invocations, algorithm method \<open>A\<close> builds its
  estimator, and if the external routine returns labels for that estimator and the
  dataset, then the method returns and has stored options whose key set is exactly the
  set of names of the defaults of \<open>A\<close>, each key once.
\<close>

theorem effective_options_keys_recognized:
  assumes alloc: "kw < nxt h0"
    and prior: "invoke_all ext inh ms (init d kw k) h0 = (self, h)"
  shows "\<exists>params solution h'.
           solution_of A self h = (Inr (params, solution), h') \<and>
           (\<forall>labels. ext solution (data self) = Inr labels \<longrightarrow>
              returned (run_algorithm ext A self h) \<and>
              fst ` set (effective_options (run_algorithm ext A self h)) =
                fst ` set (defaults_of A) \<and>
              distinct (map fst (effective_options (run_algorithm ext A self h))))"
proof -
  have "var_params (init d kw k) < nxt h0" using alloc by (simp add: init_def)
  with invoke_all_frame [OF prior] have wf: "var_params self < nxt h" by simp
  from solution_of_eq [OF wf, of A] obtain est where
    sol: "solution_of A self h = (Inr (nxt h, est), merged_store (defaults_of A) self h)" ..
  have "returned (run_algorithm ext A self h) \<and>
        fst ` set (effective_options (run_algorithm ext A self h)) = fst ` set (defaults_of A) \<and>
        distinct (map fst (effective_options (run_algorithm ext A self h)))"
    if fit: "ext est (data self) = Inr labels" for labels
  proof -
    from run_algorithm_when_routine_returns [where ext = ext and est = est, OF wf sol fit]
    have ret: "returned (run_algorithm ext A self h)"
      and eff: "effective_options (run_algorithm ext A self h) =
                  merged (defaults_of A) (cells h (var_params self))"
      by simp_all
    have "map fst (effective_options (run_algorithm ext A self h)) = map fst (defaults_of A)"
      by (simp add: eff keys_merged)
    then show ?thesis
      using ret distinct_defaults [of A] by (simp flip: set_map)
  qed
  with sol show ?thesis by blast
qed

theorem effective_options_keys_recognized_witness:
  "0 < nxt ex_store \<and>
   returned (run_algorithm ex_routine Spectral
       (fst (invoke_all ex_routine ex_inherited [Algorithm Agglomerative, Available]
               (init ex_data 0 2) ex_store))
       (snd (invoke_all ex_routine ex_inherited [Algorithm Agglomerative, Available]
               (init ex_data 0 2) ex_store))) \<and>
   fst ` set (effective_options (run_algorithm ex_routine Spectral
       (fst (invoke_all ex_routine ex_inherited [Algorithm Agglomerative, Available]
               (init ex_data 0 2) ex_store))
       (snd (invoke_all ex_routine ex_inherited [Algorithm Agglomerative, Available]
               (init ex_data 0 2) ex_store)))) =
   {''eigen_solver'', ''random_state'', ''n_init'', ''gamma'', ''affinity'', ''n_neighbors'',
    ''eigen_tol'', ''assign_labels'', ''degree'', ''coef0'', ''kernel_params''}"
proof -
  let ?s = "invoke_all ex_routine ex_inherited [Algorithm Agglomerative, Available]
              (init ex_data 0 2) ex_store"
  let ?run = "run_algorithm ex_routine Spectral (fst ?s) (snd ?s)"
  have h1: "0 < nxt ex_store" by (simp add: ex_store_def)
  have h2: "?s = (fst ?s, snd ?s)" by simp
  have fit: "ex_routine solution dd = Inr (map (\<lambda>row. 0) dd)" for solution dd
    by (simp add: ex_routine_def)
  from effective_options_keys_recognized [OF h1 h2, of Spectral] fit
  have ret: "returned ?run"
    and keys: "fst ` set (effective_options ?run) = fst ` set (defaults_of Spectral)"
    by blast+
  have "fst ` set (defaults_of Spectral) =
          {''eigen_solver'', ''random_state'', ''n_init'', ''gamma'', ''affinity'',
           ''n_neighbors'', ''eigen_tol'', ''assign_labels'', ''degree'', ''coef0'',
           ''kernel_params''}"
    by (simp add: spectral_defaults_def)
  with keys have "fst ` set (effective_options ?run) =
          {''eigen_solver'', ''random_state'', ''n_init'', ''gamma'', ''affinity'',
           ''n_neighbors'', ''eigen_tol'', ''assign_labels'', ''degree'', ''coef0'',
           ''kernel_params''}"
    by (rule trans)
  with h1 ret show ?thesis by (intro conjI)
qed

text \<open>
  C5 as stated fails when the external routine raises: after \<^verbatim>\<open>DBSCAN()\<close> on the overlay
  \<^verbatim>\<open>{'max_iter': 50, 'bogus': 1}\<close> the stored options still have the keys of the overlay,
  among them the unrecognized \<^verbatim>\<open>bogus\<close>, and not the recognized \<^verbatim>\<open>eps\<close>.
\<close>

theorem effective_options_keys_raising_counterexample:
  "fst ` set (effective_options (run_algorithm ex_failing Dbscan (init ex_data 0 2) ex_store)) =
     {''max_iter'', ''bogus''} \<and>
   ''bogus'' \<notin> fst ` set (defaults_of Dbscan) \<and>
   ''eps'' \<in> fst ` set (defaults_of Dbscan) \<and>
   fst ` set (effective_options (run_algorithm ex_failing Dbscan (init ex_data 0 2) ex_store)) \<noteq>
     fst ` set (defaults_of Dbscan)"
proof -
  have eff: "effective_options (run_algorithm ex_failing Dbscan (init ex_data 0 2) ex_store) =
               [(''max_iter'', PInt 50), (''bogus'', PInt 1)]"
    by (simp add: ex_failing_DBSCAN effective_options_def stored_options_def)
       (simp add: merged_store_def init_def ex_store_def)
  have keys: "fst ` set (defaults_of Dbscan) =
                {''eps'', ''min_samples'', ''metric'', ''algorithm'', ''leaf_size'', ''p'',
                 ''random_state''}"
    by (simp add: DBSCAN_defaults_def)
  have a: "''bogus'' \<notin> fst ` set (defaults_of Dbscan)" unfolding keys by simp
  have b: "''eps'' \<in> fst ` set (defaults_of Dbscan)" unfolding keys by simp
  have c: "''eps'' \<notin> {''max_iter'', ''bogus''}" by simp
  from b c have d: "{''max_iter'', ''bogus''} \<noteq> fst ` set (defaults_of Dbscan)" by metis
  show ?thesis unfolding eff using a b d by simp
qed

text \<open>
  C7. Every algorithm method reaches the call of the external routine, and when the routine
  raises \<open>e\<close> the method raises the same \<open>e\<close>, the facade object is the one before the call
  (so its assignment and its overlay field are), every dictionary that existed before the
  call has its contents, and the stored options are those of before the call.
\<close>

theorem routine_failure_propagates:
  assumes wf: "var_params self < nxt h"
  shows "\<exists>params solution h'.
           solution_of A self h = (Inr (params, solution), h') \<and>
           (\<forall>e. ext solution (data self) = Inl e \<longrightarrow>
                  run_algorithm ext A self h = (Inl e, self, h') \<and>
                  (\<forall>a. a < nxt h \<longrightarrow> cells h' a = cells h a) \<and>
                  effective_options (run_algorithm ext A self h) = cells h (var_params self))"
proof -
  from solution_of_eq [OF wf, of A] obtain est where
    sol: "solution_of A self h = (Inr (nxt h, est), merged_store (defaults_of A) self h)" ..
  have "run_algorithm ext A self h = (Inl e, self, merged_store (defaults_of A) self h) \<and>
        (\<forall>a. a < nxt h \<longrightarrow> cells (merged_store (defaults_of A) self h) a = cells h a) \<and>
        effective_options (run_algorithm ext A self h) = cells h (var_params self)"
    if "ext est (data self) = Inl e" for e
    using that wf
    by (simp add: run_algorithm_solution sol fit_and_store_def effective_options_def
          stored_options_def merged_store_def)
  with sol show ?thesis by blast
qed

theorem routine_failure_propagates_witness:
  "var_params (init ex_data 0 2) < nxt ex_store \<and>
   fst (run_algorithm ex_failing Kmeans (init ex_data 0 2) ex_store) =
     Inl (RoutineError ''bad input'') \<and>
   facade_of (run_algorithm ex_failing Kmeans (init ex_data 0 2) ex_store) = init ex_data 0 2 \<and>
   effective_options (run_algorithm ex_failing Kmeans (init ex_data 0 2) ex_store) =
     [(''max_iter'', PInt 50), (''bogus'', PInt 1)]"
proof -
  have h1: "var_params (init ex_data 0 2) < nxt ex_store" by (simp add: init_def ex_store_def)
  from routine_failure_propagates [OF h1, of Kmeans ex_failing] obtain params solution h' where
    "\<forall>e. ex_failing solution (data (init ex_data 0 2)) = Inl e \<longrightarrow>
       run_algorithm ex_failing Kmeans (init ex_data 0 2) ex_store =
         (Inl e, init ex_data 0 2, h') \<and>
       (\<forall>a. a < nxt ex_store \<longrightarrow> cells h' a = cells ex_store a) \<and>
       effective_options (run_algorithm ex_failing Kmeans (init ex_data 0 2) ex_store) =
         cells ex_store (var_params (init ex_data 0 2))"
    by blast
  moreover have "ex_failing solution (data (init ex_data 0 2)) = Inl (RoutineError ''bad input'')"
    by (simp add: ex_failing_def)
  ultimately show ?thesis using h1
    by (simp add: facade_of_def effective_options_def stored_options_def init_def ex_store_def)
qed

text \<open>
  C8. If the external routine returns one label per row of the dataset it is given, then
  after an invocation of an algorithm method that returns, the stored assignment is a
  sequence of integers with as many entries as the dataset has rows.
\<close>

theorem assignment_length_is_item_count:
  assumes contract: "\<forall>solution d labels. ext solution d = Inr labels \<longrightarrow> length labels = length d"
    and ret: "returned (run_algorithm ext A self h)"
  shows "length (out (facade_of (run_algorithm ext A self h))) = length (data self)"
proof -
  obtain s h2 where sol: "solution_of A self h = (s, h2)" by (cases "solution_of A self h")
  from ret contract show ?thesis
    by (auto simp: run_algorithm_solution sol fit_and_store_def returned_def facade_of_def
          split: sum.splits)
qed

theorem assignment_length_is_item_count_witness:
  "returned (run_algorithm ex_routine Dbscan (init ex_data 0 2) empty_store) \<and>
   length (out (facade_of (run_algorithm ex_routine Dbscan (init ex_data 0 2) empty_store))) = 3"
proof -
  have h1: "\<forall>solution d labels. ex_routine solution d = Inr labels \<longrightarrow> length labels = length d"
    by (auto simp: ex_routine_def)
  have h2: "returned (run_algorithm ex_routine Dbscan (init ex_data 0 2) empty_store)"
    by (simp add: ex_DBSCAN_empty returned_def)
  from assignment_length_is_item_count [OF h1 h2] h2
  show ?thesis by (simp add: init_def ex_data_def)
qed

text \<open>
  C9. After any sequence of invocations (algorithm methods and discovery, returning or
  raising) on a facade constructed with dataset \<open>d\<close> and cluster count \<open>k\<close>, the fields
  \<open>data\<close> and \<open>K\<close> are \<open>d\<close> and \<open>k\<close>; an algorithm invocation changes no field of the
  object other than \<open>out\<close> and \<open>var_params\<close>, and discovery changes none.
\<close>

theorem data_and_K_never_modified:
  "data (fst (invoke_all ext inh ms (init d kw k) h)) = d \<and>
   K (fst (invoke_all ext inh ms (init d kw k) h)) = k \<and>
   (\<exists>labels params. facade_of (run_algorithm ext A self h') =
                       self\<lparr>out := labels, var_params := params\<rparr>) \<and>
   facade_of (clustering_algorithms_available inh self h') = self"
proof -
  obtain s1 h1 where all: "invoke_all ext inh ms (init d kw k) h = (s1, h1)"
    by (cases "invoke_all ext inh ms (init d kw k) h")
  from invoke_all_frame [OF all] have "data s1 = d" and "K s1 = k"
    by (simp_all add: init_def)
  moreover obtain r s2 h2 where run: "run_algorithm ext A self h' = (r, s2, h2)"
    by (cases "run_algorithm ext A self h'")
  from run_algorithm_frame [OF run]
  have "s2 = self \<or> (\<exists>labels. s2 = self\<lparr>out := labels, var_params := nxt h'\<rparr>)" by auto
  then have "\<exists>labels params. s2 = self\<lparr>out := labels, var_params := params\<rparr>"
  proof
    assume "s2 = self"
    then have "s2 = self\<lparr>out := out self, var_params := var_params self\<rparr>" by simp
    then show ?thesis by blast
  next
    assume "\<exists>labels. s2 = self\<lparr>out := labels, var_params := nxt h'\<rparr>"
    then show ?thesis by blast
  qed
  moreover obtain r3 s3 h3 where av: "clustering_algorithms_available inh self h' = (r3, s3, h3)"
    by (cases "clustering_algorithms_available inh self h'")
  from available_frame [OF av] have "s3 = self" by simp
  ultimately show ?thesis
    by (simp add: all run av facade_of_def)
qed

theorem data_and_K_never_modified_witness:
  "data (fst (invoke_all ex_routine ex_inherited
                [Algorithm Kmeans, Available, Algorithm Dbscan] (init ex_data 0 2) ex_store)) =
     ex_data \<and>
   K (fst (invoke_all ex_routine ex_inherited
             [Algorithm Kmeans, Available, Algorithm Dbscan] (init ex_data 0 2) ex_store)) = 2"
  using data_and_K_never_modified
          [of ex_routine ex_inherited "[Algorithm Kmeans, Available, Algorithm Dbscan]"
              ex_data 0 2 ex_store]
  by simp



text \<open>
  C2, amended. An invocation of \<open>A\<close> that returns rebinds the overlay field to a new
  dictionary, the options it stored; one that raises leaves the field and the dictionary it
  refers to as they were. The merge step of the next invocation consults whatever the field
  refers to then: invoking \<open>B\<close> after \<open>A\<close> has the same outcome and stores the same options
  as invoking \<open>B\<close> on a freshly constructed facade with the same dataset and \<open>K\<close> whose
  overlay \<open>kw\<close> has the contents of the dictionary the field refers to after \<open>A\<close>.
\<close>

theorem next_invocation_consults_stored_options:
  assumes wf: "var_params self < nxt h"
    and first: "run_algorithm ext A self h = (r, self1, h1)"
    and fresh: "kw < nxt h2"
    and same: "cells h2 kw = cells h1 (var_params self1)"
  shows "(if returned (run_algorithm ext A self h)
          then var_params self1 = nxt h \<and> var_params self < var_params self1 \<and>
               cells h1 (var_params self1) = effective_options (run_algorithm ext A self h)
          else var_params self1 = var_params self \<and>
               cells h1 (var_params self1) = cells h (var_params self)) \<and>
         fst (run_algorithm ext B self1 h1) =
           fst (run_algorithm ext B (init (data self) kw (K self)) h2) \<and>
         effective_options (run_algorithm ext B self1 h1) =
           effective_options (run_algorithm ext B (init (data self) kw (K self)) h2)"
proof -
  note fr = run_algorithm_frame [OF first]
  have wf1: "var_params self1 < nxt h1" using fr wf by auto
  have "data self1 = data self" and "K self1 = K self" using fr by auto
  then have "fst (run_algorithm ext B self1 h1) =
               fst (run_algorithm ext B (init (data self) kw (K self)) h2) \<and>
             effective_options (run_algorithm ext B self1 h1) =
               effective_options (run_algorithm ext B (init (data self) kw (K self)) h2)"
    using run_algorithm_same_contents
            [of "init (data self) kw (K self)" h2 self1 h1 ext B] wf1 fresh same
    by (simp add: init_def)
  then have rest: "fst (run_algorithm ext B self1 h1) =
               fst (run_algorithm ext B (init (data self) kw (K self)) h2) \<and>
             effective_options (run_algorithm ext B self1 h1) =
               effective_options (run_algorithm ext B (init (data self) kw (K self)) h2)" .
  show ?thesis
  proof (cases "returned (run_algorithm ext A self h)")
    case True
    then have "var_params self1 = nxt h \<and> var_params self < var_params self1 \<and>
               cells h1 (var_params self1) = effective_options (run_algorithm ext A self h)"
      using fr wf
      by (auto simp: first returned_def effective_options_def stored_options_def)
    with rest show ?thesis unfolding if_P [OF True] by blast
  next
    case False
    then have "var_params self1 = var_params self \<and>
               cells h1 (var_params self1) = cells h (var_params self)"
      using fr wf by (auto simp: first returned_def)
    with rest show ?thesis unfolding if_not_P [OF False] by blast
  qed
qed

text \<open>
  C2 as stated fails. On a facade with the empty overlay and a routine that returns labels:
  after \<^verbatim>\<open>agglomerative()\<close> the field \<open>var_params\<close> no longer refers to the caller's
  dictionary, and \<^verbatim>\<open>spectral()\<close> called next stores \<^verbatim>\<open>affinity = 'euclidean'\<close>, the default
  of the agglomerative method, where \<^verbatim>\<open>spectral()\<close> on the fresh facade stores its own
  default \<^verbatim>\<open>'rbf'\<close>.
\<close>

theorem overlay_replaced_counterexample:
  "var_params (fst (invoke_all ex_routine ex_inherited [Algorithm Agglomerative]
                      (init ex_data 0 2) empty_store)) \<noteq>
     var_params (init ex_data 0 2) \<and>
   map_of (stored_options (invoke_all ex_routine ex_inherited
             [Algorithm Agglomerative, Algorithm Spectral] (init ex_data 0 2) empty_store))
     ''affinity'' = Some (PStr ''euclidean'') \<and>
   map_of (stored_options (invoke_all ex_routine ex_inherited
             [Algorithm Spectral] (init ex_data 0 2) empty_store))
     ''affinity'' = Some (PStr ''rbf'')"
  by (simp add: ex_agglomerative_empty ex_spectral_empty ex_spectral_after_agglomerative
        stored_options_def)
     (simp add: init_def merged_store_def empty_store_def merged_def override_def
        spectral_defaults_def agglomerative_defaults_def)

theorem next_invocation_consults_stored_options_witness:
  "var_params (init ex_data 0 2) < nxt empty_store \<and>
   returned (run_algorithm ex_routine Agglomerative (init ex_data 0 2) empty_store) \<and>
   map_of (effective_options (run_algorithm ex_routine Spectral
             (facade_of (run_algorithm ex_routine Agglomerative (init ex_data 0 2) empty_store))
             (store_of (run_algorithm ex_routine Agglomerative (init ex_data 0 2) empty_store))))
     ''affinity'' = Some (PStr ''euclidean'')"
proof -
  let ?A = "run_algorithm ex_routine Agglomerative (init ex_data 0 2) empty_store"
  let ?h2 = "\<lparr>cells = (\<lambda>a. [])(0 := effective_options ?A), nxt = 1\<rparr>"
  have h1: "var_params (init ex_data 0 2) < nxt empty_store"
    by (simp add: init_def empty_store_def)
  have h2: "?A = (fst ?A, facade_of ?A, store_of ?A)"
    by (simp add: facade_of_def store_of_def)
  have h3: "0 < nxt ?h2" by simp
  have h4: "cells ?h2 0 = cells (store_of ?A) (var_params (facade_of ?A))"
    by (simp add: effective_options_def stored_options_def facade_of_def store_of_def)
  have ret: "returned ?A" by (simp add: ex_agglomerative_empty returned_def)
  have eff: "effective_options ?A = agglomerative_defaults"
    by (simp add: ex_agglomerative_empty effective_options_def stored_options_def)
       (simp add: merged_store_def empty_store_def init_def merged_empty)
  have wf2: "var_params (init ex_data 0 2) < nxt ?h2" by (simp add: init_def)
  have ret2: "returned (run_algorithm ex_routine Spectral (init ex_data 0 2) ?h2)"
    using wf2 by (rule ex_routine_returns)
  have e2: "effective_options (run_algorithm ex_routine Spectral (init ex_data 0 2) ?h2) =
              merged (defaults_of Spectral) (cells ?h2 (var_params (init ex_data 0 2)))"
    using wf2 ret2 by (rule effective_options_returned)
  have vp: "var_params (init ex_data 0 2) = 0" by (simp add: init_def)
  have ov: "cells ?h2 (var_params (init ex_data 0 2)) = agglomerative_defaults"
    unfolding vp using eff by simp
  have "map_of (effective_options (run_algorithm ex_routine Spectral (init ex_data 0 2) ?h2))
          ''affinity'' = Some (PStr ''euclidean'')"
    unfolding e2 ov
    by (simp add: merged_def override_def spectral_defaults_def agglomerative_defaults_def)
  moreover have "init (data (init ex_data 0 2)) 0 (K (init ex_data 0 2)) = init ex_data 0 2"
    by (simp add: init_def)
  moreover have "effective_options (run_algorithm ex_routine Spectral (facade_of ?A) (store_of ?A)) =
      effective_options (run_algorithm ex_routine Spectral
        (init (data (init ex_data 0 2)) 0 (K (init ex_data 0 2))) ?h2)"
    using next_invocation_consults_stored_options [OF h1 h2 h3 h4, of Spectral] by blast
  ultimately show ?thesis using h1 ret by (simp only: simp_thms)
qed

text \<open>
  C4 as stated fails. On a facade with cluster count 7 and the empty overlay: the DBSCAN
  method constructs its estimator from arguments among which the cluster count does not
  occur, and the spectral method has \<^verbatim>\<open>degree\<close> in its merged options and not among the
  arguments of its estimator.
\<close>

theorem estimator_arguments_counterexample:
  "call_args (DBSCAN_solution (init ex_data 0 7) empty_store) \<noteq> [] \<and>
   PInt 7 \<notin> snd ` set (call_args (DBSCAN_solution (init ex_data 0 7) empty_store)) \<and>
   map_of (cells (snd (spectral_solution (init ex_data 0 7) empty_store)) 1) ''degree'' =
     Some (PInt 3) \<and>
   ''degree'' \<notin> fst ` set (call_args (spectral_solution (init ex_data 0 7) empty_store))"
  unfolding ex_DBSCAN_solution ex_spectral_solution
  by (simp add: call_args_def merged_store_def empty_store_def init_def merged_def override_def
        spectral_defaults_def)

text \<open>
  C4, amended. Every algorithm method constructs its estimator and calls the external
  routine with that estimator and the facade's dataset, storing the labels and the merged
  options when it returns. For kmeans, spectral and agglomerative the estimator gets
  \<^verbatim>\<open>n_clusters\<close> = \<open>K\<close>; the DBSCAN estimator gets exactly the merged options and no cluster
  count. Every merged option is an argument of the estimator under its own name, where
  for the spectral method this is stated of the options other than \<^verbatim>\<open>degree\<close>.
\<close>

theorem estimator_arguments:
  assumes wf: "var_params self < nxt h"
  shows "\<exists>params solution h'.
           solution_of A self h = (Inr (params, solution), h') \<and>
           run_algorithm ext A self h =
             (case ext solution (data self) of
                Inl e \<Rightarrow> (Inl e, self, h')
              | Inr labels \<Rightarrow> (Inr PNone, self\<lparr>out := labels, var_params := params\<rparr>, h')) \<and>
           (A \<noteq> Dbscan \<longrightarrow> map_of (kwargs solution) ''n_clusters'' = Some (PInt (K self))) \<and>
           (A = Dbscan \<longrightarrow> kwargs solution = cells h' params) \<and>
           (\<forall>key v. map_of (cells h' params) key = Some v \<and>
                     (A = Spectral \<longrightarrow> key \<noteq> ''degree'') \<longrightarrow>
                     map_of (kwargs solution) key = Some v)"
proof -
  let ?ov = "cells h (var_params self)"
  let ?h' = "merged_store (defaults_of A) self h"
  have c: "cells ?h' (nxt h) = merged (defaults_of A) ?ov" by (rule cells_merged_store)
  have "\<exists>solution.
          solution_of A self h = (Inr (nxt h, solution), ?h') \<and>
          (A \<noteq> Dbscan \<longrightarrow> map_of (kwargs solution) ''n_clusters'' = Some (PInt (K self))) \<and>
          (A = Dbscan \<longrightarrow> kwargs solution = merged (defaults_of A) ?ov) \<and>
          (\<forall>key v. map_of (merged (defaults_of A) ?ov) key = Some v \<and>
                    (A = Spectral \<longrightarrow> key \<noteq> ''degree'') \<longrightarrow>
                    map_of (kwargs solution) key = Some v)"
  proof (cases A)
    case Kmeans
    show ?thesis
      using with_cluster_count [OF n_clusters_not_default, of Kmeans ?ov _ _ "K self"]
      by (simp add: Kmeans kmeans_solution_eq [OF wf])
  next
    case Spectral
    have n: "map_of ((''n_clusters'', x) # rest) ''n_clusters'' = Some x"
      for x :: pyval and rest by simp
    show ?thesis
      using spectral_args_cover [of ?ov _ _ "K self"]
      by (auto simp add: Spectral spectral_solution_eq [OF wf] n
            simp del: map_of.simps list.map)
  next
    case Agglomerative
    show ?thesis
      using with_cluster_count [OF n_clusters_not_default, of Agglomerative ?ov _ _ "K self"]
      by (simp add: Agglomerative agglomerative_solution_eq [OF wf])
  next
    case Dbscan
    show ?thesis by (simp add: Dbscan DBSCAN_solution_eq [OF wf])
  qed
  then obtain solution where
    sol: "solution_of A self h = (Inr (nxt h, solution), ?h')" and
    rest: "(A \<noteq> Dbscan \<longrightarrow> map_of (kwargs solution) ''n_clusters'' = Some (PInt (K self))) \<and>
          (A = Dbscan \<longrightarrow> kwargs solution = merged (defaults_of A) ?ov) \<and>
          (\<forall>key v. map_of (merged (defaults_of A) ?ov) key = Some v \<and>
                    (A = Spectral \<longrightarrow> key \<noteq> ''degree'') \<longrightarrow>
                    map_of (kwargs solution) key = Some v)"
    by blast
  have run: "run_algorithm ext A self h =
             (case ext solution (data self) of
                Inl e \<Rightarrow> (Inl e, self, ?h')
              | Inr labels \<Rightarrow> (Inr PNone, self\<lparr>out := labels, var_params := nxt h\<rparr>, ?h'))"
    by (simp add: run_algorithm_solution sol fit_and_store_def)
  from sol run rest show ?thesis
    unfolding c [symmetric] by blast
qed

theorem estimator_arguments_witness:
  "var_params (init ex_data 0 7) < nxt empty_store \<and>
   (\<exists>params solution h'.
      solution_of Kmeans (init ex_data 0 7) empty_store = (Inr (params, solution), h') \<and>
      map_of (kwargs solution) ''n_clusters'' = Some (PInt 7))"
proof -
  have h1: "var_params (init ex_data 0 7) < nxt empty_store"
    by (simp add: init_def empty_store_def)
  from estimator_arguments [OF h1, of Kmeans ex_routine] obtain params solution h' where
    "solution_of Kmeans (init ex_data 0 7) empty_store = (Inr (params, solution), h')" and
    "map_of (kwargs solution) ''n_clusters'' = Some (PInt (K (init ex_data 0 7)))"
    by auto
  moreover have "K (init ex_data 0 7) = 7" by (simp add: init_def)
  ultimately show ?thesis using h1 by auto
qed

text \<open>
  C6. When every attribute name that the object inherits from the language starts with two
  underscores, \<^verbatim>\<open>clustering_algorithms_available()\<close> returns a reference to a new
  dictionary whose key set is exactly \<^verbatim>\<open>kmeans\<close>, \<^verbatim>\<open>spectral\<close>, \<^verbatim>\<open>agglomerative\<close>, \<^verbatim>\<open>DBSCAN\<close>
  (itself and the names with two leading underscores are left out), every key mapped to the
  empty string; the facade object is unchanged and so is every dictionary that existed
  before the call.
\<close>

theorem discovery_lists_algorithms:
  assumes inh: "\<forall>name \<in> fst ` set inherited. re_match_dunder name"
  shows "\<exists>h'. clustering_algorithms_available inherited self h =
                 (Inr (PRef (nxt h)), self, h') \<and>
              fst ` set (cells h' (nxt h)) =
                {''kmeans'', ''spectral'', ''agglomerative'', ''DBSCAN''} \<and>
              (\<forall>name \<in> fst ` set (cells h' (nxt h)).
                 map_of (cells h' (nxt h)) name = Some (PStr '''')) \<and>
              (\<forall>a. a \<noteq> nxt h \<longrightarrow> cells h' a = cells h a)"
proof -
  let ?ms = "remove1 ''clustering_algorithms_available''
               (filter (callable_attr inherited) (dir_self inherited))"
  let ?h1 = "h\<lparr>cells := (cells h)(nxt h := []), nxt := Suc (nxt h)\<rparr>"
  let ?h' = "fill_methodDict (nxt h) ?ms ?h1"
  have e: "cells ?h1 (nxt h) = []" by simp
  have run: "clustering_algorithms_available inherited self h = (Inr (PRef (nxt h)), self, ?h')"
    unfolding clustering_algorithms_available_def methods_listed(1) [OF inh]
    by (simp add: new_dict_def)
  have keys: "fst ` set (cells ?h' (nxt h)) =
                {''kmeans'', ''spectral'', ''agglomerative'', ''DBSCAN''}"
    unfolding fill_methodDict_keys e methods_listed(2) [OF inh] by simp
  have vals: "snd ` set (cells ?h' (nxt h)) \<subseteq> {PStr ''''}"
    using fill_methodDict_values [of "nxt h" ?ms ?h1] by (simp only: e list.set image_empty)
  have placeholder: "map_of (cells ?h' (nxt h)) name = Some (PStr '''')"
    if "name \<in> fst ` set (cells ?h' (nxt h))" for name
  proof -
    from that have "map_of (cells ?h' (nxt h)) name \<noteq> None"
      by (simp only: map_of_eq_None_iff not_not)
    then obtain v where v: "map_of (cells ?h' (nxt h)) name = Some v" by blast
    then have "(name, v) \<in> set (cells ?h' (nxt h))" by (rule map_of_SomeD)
    then have "snd (name, v) \<in> snd ` set (cells ?h' (nxt h))" by (rule imageI)
    with vals have "v = PStr ''''" by auto
    with v show ?thesis by simp
  qed
  have frame: "\<forall>a. a \<noteq> nxt h \<longrightarrow> cells ?h' a = cells h a"
  proof (intro allI impI)
    fix a assume "a \<noteq> nxt h"
    with fill_methodDict_frame [of "nxt h" ?ms ?h1]
    have "cells ?h' a = cells ?h1 a" by blast
    with \<open>a \<noteq> nxt h\<close> show "cells ?h' a = cells h a" by simp
  qed
  show ?thesis
  proof (intro exI conjI)
    show "clustering_algorithms_available inherited self h = (Inr (PRef (nxt h)), self, ?h')"
      by (rule run)
    show "fst ` set (cells ?h' (nxt h)) = {''kmeans'', ''spectral'', ''agglomerative'', ''DBSCAN''}"
      by (rule keys)
    show "\<forall>name \<in> fst ` set (cells ?h' (nxt h)).
            map_of (cells ?h' (nxt h)) name = Some (PStr '''')"
      by (intro ballI) (rule placeholder)
    show "\<forall>a. a \<noteq> nxt h \<longrightarrow> cells ?h' a = cells h a" by (rule frame)
  qed
qed

theorem discovery_lists_algorithms_witness:
  "fst (clustering_algorithms_available ex_inherited (init ex_data 0 2) ex_store) =
     Inr (PRef 1) \<and>
   facade_of (clustering_algorithms_available ex_inherited (init ex_data 0 2) ex_store) =
     init ex_data 0 2 \<and>
   fst ` set (cells (store_of (clustering_algorithms_available ex_inherited
                                (init ex_data 0 2) ex_store)) 1) =
     {''kmeans'', ''spectral'', ''agglomerative'', ''DBSCAN''}"
proof -
  have h1: "\<forall>name \<in> fst ` set ex_inherited. re_match_dunder name"
    by (simp add: ex_inherited_def re_match_dunder_def)
  have n: "nxt ex_store = 1" by (simp add: ex_store_def)
  from discovery_lists_algorithms [OF h1, of "init ex_data 0 2" ex_store]
  have "\<exists>h'. clustering_algorithms_available ex_inherited (init ex_data 0 2) ex_store =
                (Inr (PRef 1), init ex_data 0 2, h') \<and>
             fst ` set (cells h' 1) = {''kmeans'', ''spectral'', ''agglomerative'', ''DBSCAN''}"
    unfolding n by (elim exE conjE, intro exI conjI)
  then obtain h' where
    r: "clustering_algorithms_available ex_inherited (init ex_data 0 2) ex_store =
          (Inr (PRef 1), init ex_data 0 2, h')" and
    k: "fst ` set (cells h' 1) = {''kmeans'', ''spectral'', ''agglomerative'', ''DBSCAN''}"
    by (elim exE conjE)
  show ?thesis
    unfolding r facade_of_def store_of_def fst_conv snd_conv
    using k by (intro conjI) (assumption | rule refl)+
qed

end
